theory Spec2Isabelle
  imports Main "HOL-Library.Word" "HOL-Library.Sublist"
begin

unbundle bit_operations_syntax

section \<open>Addresses: the parts of Go's package net that utils.go calls\<close>

text \<open>
  A \<^verbatim>\<open>net.IP\<close> is a byte slice: 4 bytes for an IPv4 address, 16 bytes for an IPv6 address
  or for an IPv4 address in its IPv4-mapped form; the nil slice is the empty list. A
  \<^verbatim>\<open>nil\<close> result of \<^verbatim>\<open>To4\<close> is \<open>None\<close>.
\<close>

type_synonym byte = "8 word"
type_synonym IP = "byte list"
type_synonym IPMask = "byte list"

record IPNet =
  IP :: IP
  Mask :: IPMask

definition v4InV6Prefix :: "byte list" where
  "v4InV6Prefix = [0, 0, 0, 0, 0, 0, 0, 0, 0, 0, 0xff, 0xff]"

text \<open>\<^verbatim>\<open>net.IPv4(a, b, c, d)\<close>: the 16-byte form of the address.\<close>

definition IPv4 :: "byte \<Rightarrow> byte \<Rightarrow> byte \<Rightarrow> byte \<Rightarrow> IP" where
  "IPv4 a b c d = v4InV6Prefix @ [a, b, c, d]"

text \<open>
  \<^verbatim>\<open>ip.To4()\<close>: a 4-byte slice is returned as it is, a 16-byte slice with the IPv4-mapped
  prefix gives its last four bytes, anything else gives nil.
\<close>

definition To4 :: "IP \<Rightarrow> IP option" where
  "To4 ip =
     (if length ip = 4 then Some ip
      else if length ip = 16 \<and> take 12 ip = v4InV6Prefix then Some (drop 12 ip)
      else None)"

text \<open>
  \<^verbatim>\<open>net.CIDRMask(ones, bits)\<close>: nil unless \<open>bits\<close> is 32 or 128 and \<open>0 \<le> ones \<le> bits\<close>;
  otherwise \<open>bits / 8\<close> bytes, the first \<open>ones\<close> bits set. The loop over the bytes carries
  the number \<open>n\<close> of ones still to write.
\<close>

fun cidrBytes :: "nat \<Rightarrow> nat \<Rightarrow> byte list" where
  "cidrBytes 0 n = []"
| "cidrBytes (Suc l) n =
     (if 8 \<le> n then 0xff # cidrBytes l (n - 8)
      else NOT (drop_bit n (0xff :: byte)) # cidrBytes l 0)"

definition CIDRMask :: "int \<Rightarrow> int \<Rightarrow> IPMask" where
  "CIDRMask ones bits =
     (if bits \<noteq> 32 \<and> bits \<noteq> 128 then []
      else if ones < 0 \<or> bits < ones then []
      else cidrBytes (nat (bits div 8)) (nat ones))"

text \<open>
  \<^verbatim>\<open>networkNumberAndMask\<close>, the helper of \<^verbatim>\<open>Contains\<close>: the network number in its shortest form
  and a mask of the same length; \<open>None\<close> is the pair of nils.
\<close>

definition networkNumberAndMask :: "IPNet \<Rightarrow> (IP \<times> IPMask) option" where
  "networkNumberAndMask n =
     (case (case To4 (IP n) of
              Some x \<Rightarrow> Some x
            | None \<Rightarrow> if length (IP n) \<noteq> 16 then None else Some (IP n)) of
        None \<Rightarrow> None
      | Some ip \<Rightarrow>
          if length (Mask n) = 4 then
            (if length ip \<noteq> 4 then None else Some (ip, Mask n))
          else if length (Mask n) = 16 then
            (if length ip = 4 then Some (ip, drop 12 (Mask n)) else Some (ip, Mask n))
          else None)"

text \<open>
  \<^verbatim>\<open>n.Contains(ip)\<close>: the address is shortened with \<^verbatim>\<open>To4\<close> when that is possible, a length
  different from the network number's gives false, and otherwise every byte is compared
  under the mask. When \<^verbatim>\<open>networkNumberAndMask\<close> returns nils the network number has length 0.
\<close>

definition maskedEq :: "IP \<Rightarrow> IPMask \<Rightarrow> IP \<Rightarrow> bool" where
  "maskedEq nn m ip = list_all (\<lambda>i. (nn ! i) AND (m ! i) = (ip ! i) AND (m ! i)) [0 ..< length ip]"

definition Contains :: "IPNet \<Rightarrow> IP \<Rightarrow> bool" where
  "Contains n ip0 =
     (let ip = (case To4 ip0 of Some x \<Rightarrow> x | None \<Rightarrow> ip0) in
      case networkNumberAndMask n of
        None \<Rightarrow> length ip = 0
      | Some (nn, m) \<Rightarrow> if length ip \<noteq> length nn then False else maskedEq nn m ip)"

section \<open>Topology checks\<close>

text \<open>\<^verbatim>\<open>net.ParseIP\<close> of a dotted quad is the 16-byte form of the address.\<close>

definition isRFC1918 :: "IP \<Rightarrow> bool" where
  "isRFC1918 ip =
     (let ten = \<lparr>IP = IPv4 10 0 0 0, Mask = CIDRMask 8 32\<rparr>;
          oneNineTwo = \<lparr>IP = IPv4 192 168 0 0, Mask = CIDRMask 16 32\<rparr>;
          oneSevenTwo = \<lparr>IP = IPv4 172 16 0 0, Mask = CIDRMask 12 32\<rparr>
      in Contains ten ip \<or> Contains oneNineTwo ip \<or> Contains oneSevenTwo ip)"

text \<open>
  \<^verbatim>\<open>isSameSubnet\<close>. The first loop collects a /24 network for every address with a 4-byte
  form and counts them; the second counts the pairs of a network and an address with the
  address in the network. Go's \<^verbatim>\<open>int\<close> has 64 bits here: a counter or a product that passes
  \<open>2 ^ 63\<close> wraps around, and two of them are equal exactly when they are congruent modulo
  \<open>2 ^ 64\<close>. The model counts in \<open>nat\<close> and compares the residues.
\<close>

definition collectNets :: "IP list \<Rightarrow> IPNet list \<times> nat" where
  "collectNets ips =
     foldl (\<lambda>(ipnets, ipv4) ip.
              if To4 ip \<noteq> None then (ipnets @ [\<lparr>IP = ip, Mask = CIDRMask 24 32\<rparr>], ipv4 + 1)
              else (ipnets, ipv4))
       ([], 0) ips"

definition containsCount :: "IPNet list \<Rightarrow> IP list \<Rightarrow> nat" where
  "containsCount ipnets ips =
     foldl (\<lambda>count ipnet. foldl (\<lambda>count ip. if Contains ipnet ip then count + 1 else count) count ips)
       0 ipnets"

definition isSameSubnet :: "IP list \<Rightarrow> bool" where
  "isSameSubnet ips =
     (let (ipnets, ipv4) = collectNets ips;
          count = containsCount ipnets ips
      in if count mod 2 ^ 64 = (ipv4 * length ipnets) mod 2 ^ 64 then True else False)"

section \<open>Resource records and messages: the parts of the DNS library that utils.go reads\<close>

type_synonym uint16 = "16 word"
type_synonym Duration = "64 word"

record RR_Header =
  Name :: string
  Rrtype :: uint16
  Class :: uint16
  Ttl :: "32 word"
  Rdlength :: uint16

text \<open>
  A \<^verbatim>\<open>dns.RR\<close> is an interface value; its dynamic type is the constructor. utils.go
  distinguishes \<^verbatim>\<open>*dns.A\<close>, \<^verbatim>\<open>*dns.AAAA\<close> and \<^verbatim>\<open>*dns.NS\<close>; \<^verbatim>\<open>*dns.OPT\<close> is what \<^verbatim>\<open>SetEdns0\<close>
  adds to a query, and \<open>OtherRR\<close> stands for every other record type, of which only the
  header is read. The type in the header is a field of its own.
\<close>

datatype RR =
    A RR_Header IP
  | AAAA RR_Header IP
  | NS RR_Header string
  | OPT RR_Header
  | OtherRR RR_Header

fun Header :: "RR \<Rightarrow> RR_Header" where
  "Header (A h ip) = h"
| "Header (AAAA h ip) = h"
| "Header (NS h ns) = h"
| "Header (OPT h) = h"
| "Header (OtherRR h) = h"

definition TypeA :: uint16 where "TypeA = 1"
definition TypeNS :: uint16 where "TypeNS = 2"
definition TypeAAAA :: uint16 where "TypeAAAA = 28"
definition TypeOPT :: uint16 where "TypeOPT = 41"
definition ClassINET :: uint16 where "ClassINET = 1"

record Question =
  Q_Name :: string
  Qtype :: uint16
  Qclass :: uint16

record Msg =
  MsgId :: uint16
  RecursionDesired :: bool
  CheckingDisabled :: bool
  Rcode :: int
  Question :: "Question list"
  Answer :: "RR list"
  Extra :: "RR list"

text \<open>
  \<^verbatim>\<open>dns.RcodeToString\<close>, a Go map from the response codes the library knows to their names: a
  code that is not a key gives the empty string. The theorems below read the entry of code 5.
\<close>

definition RcodeToString :: "int \<Rightarrow> string" where
  "RcodeToString c =
     (if c = 0 then ''NOERROR'' else if c = 1 then ''FORMERR'' else if c = 2 then ''SERVFAIL''
      else if c = 3 then ''NXDOMAIN'' else if c = 4 then ''NOTIMP'' else if c = 5 then ''REFUSED''
      else if c = 6 then ''YXDOMAIN'' else if c = 7 then ''YXRRSET'' else if c = 8 then ''NXRRSET''
      else if c = 9 then ''NOTAUTH'' else if c = 10 then ''NOTZONE'' else if c = 16 then ''BADSIG''
      else if c = 17 then ''BADKEY'' else if c = 18 then ''BADTIME'' else if c = 19 then ''BADMODE''
      else if c = 20 then ''BADNAME'' else if c = 21 then ''BADALG'' else if c = 22 then ''BADTRUNC''
      else if c = 23 then ''BADCOOKIE'' else [])"

definition backslash :: char where
  "backslash = CHR 0x5C"

text \<open>\<^verbatim>\<open>net.JoinHostPort\<close>: a host with a colon is put in brackets.\<close>

definition JoinHostPort :: "string \<Rightarrow> string \<Rightarrow> string" where
  "JoinHostPort host port =
     (if CHR '':'' \<in> set host then ''['' @ host @ '']:'' @ port
      else host @ '':'' @ port)"

text \<open>
  \<^verbatim>\<open>m.SetEdns0(udpsize, do)\<close> appends an OPT record to the additional section: the UDP size is
  its class, the DO bit is bit 15 of its TTL.
\<close>

definition SetEdns0 :: "Msg \<Rightarrow> uint16 \<Rightarrow> bool \<Rightarrow> Msg" where
  "SetEdns0 m udpsize do =
     (let h = \<lparr>Name = ''.'', Rrtype = TypeOPT, Class = udpsize,
               Ttl = (if do then 0x8000 else 0), Rdlength = 0\<rparr>
      in m\<lparr>Extra := Extra m @ [OPT h]\<rparr>)"

text \<open>
  \<^verbatim>\<open>fmt.Sprintf("%#v", x)\<close> for an unsigned integer: \<open>0x\<close> and the lower-case hexadecimal digits.
\<close>

definition hexDigit :: "nat \<Rightarrow> char" where
  "hexDigit d = (''0123456789abcdef'') ! d"

fun hexDigits :: "nat \<Rightarrow> string" where
  "hexDigits n = (if n < 16 then [hexDigit n] else hexDigits (n div 16) @ [hexDigit (n mod 16)])"

declare hexDigits.simps [simp del]

definition fmtSharpV :: "uint16 \<Rightarrow> string" where
  "fmtSharpV x = ''0x'' @ hexDigits (unat x)"

text \<open>\<^verbatim>\<open>strings.Contains(s, substr)\<close>: \<open>substr\<close> occurs in \<open>s\<close> as a contiguous run of bytes.\<close>

definition strings_Contains :: "string \<Rightarrow> string \<Rightarrow> bool" where
  "strings_Contains s substr = sublist substr s"

section \<open>The environment\<close>

text \<open>
  What utils.go takes from outside: the exchange of one message with one server
  (\<^verbatim>\<open>Client.Exchange\<close>, which returns either an error or a reply and its round-trip time), the
  random message id (\<^verbatim>\<open>dns.Id\<close>), the package-level variable \<^verbatim>\<open>resolver\<close>, and the library's
  \<^verbatim>\<open>dns.Fqdn\<close>, which makes a name fully qualified and of which nothing is assumed. The state
  \<open>'w\<close> of the outside world is threaded through every call, so that two exchanges of the same
  message may be answered differently. An error is modelled by its message, the only part of it that
  utils.go reads; where Go returns a zero value beside a non-nil error, the model returns the
  error alone.
\<close>

record 'w Env =
  Exchange :: "Msg \<Rightarrow> string \<Rightarrow> 'w \<Rightarrow> (string + Msg \<times> Duration) \<times> 'w"
  NewId :: "'w \<Rightarrow> uint16 \<times> 'w"
  resolver :: string
  Fqdn :: "string \<Rightarrow> string"

text \<open>
  Modelled from the spec: the struct declarations \<^verbatim>\<open>Response\<close>, \<^verbatim>\<open>IPInfo\<close>, \<^verbatim>\<open>NSInfo\<close>, \<^verbatim>\<open>NSData\<close>,
  \<^verbatim>\<open>ReportResult\<close> and \<^verbatim>\<open>Report\<close> are not in utils.go. The records have the fields that utils.go
  reads and writes; of \<^verbatim>\<open>IPInfo\<close>, whose literal in \<^verbatim>\<open>ipinfo\<close> has four positional fields, only the
  name \<^verbatim>\<open>IP\<close> is visible, and the other three are named after the specification's country, ASN
  and organisation.
\<close>

record Response =
  Resp_Msg :: Msg
  Server :: string
  Rtt :: Duration

record IPInfo =
  IPInfo_IP :: IP
  IPInfo_Country :: string
  IPInfo_ASN :: int
  IPInfo_Org :: string

record NSInfo =
  NSInfo_IPInfo :: IPInfo
  NSInfo_Name :: string

record NSData =
  NSData_Name :: string
  NSData_IP :: "IP list"
  NSData_Info :: "NSInfo list"

record ReportResult =
  Result :: string

record Report =
  Report_Result :: "ReportResult list"

section \<open>utils.go: records and queries\<close>

text \<open>
  The functions of utils.go in the order of the file. Two are left out: \<^verbatim>\<open>ipinfo\<close>, a lookup in
  an external service, and \<^verbatim>\<open>rrset2map\<close>, whose map is keyed by the identity of its records.
\<close>

fun extractIP :: "RR list \<Rightarrow> IP list" where
  "extractIP [] = []"
| "extractIP (A h ip # rrset) = ip # extractIP rrset"
| "extractIP (AAAA h ip # rrset) = ip # extractIP rrset"
| "extractIP (rr # rrset) = extractIP rrset"

text \<open>\<^verbatim>\<open>extractRR\<close>: the set of wanted types is a Go map, filled by the first loop.\<close>

definition qtypeMap :: "uint16 list \<Rightarrow> (uint16 \<rightharpoonup> bool)" where
  "qtypeMap qtypes = foldl (\<lambda>m qtype. m(qtype \<mapsto> True)) Map.empty qtypes"

definition extractRR :: "RR list \<Rightarrow> uint16 list \<Rightarrow> RR list" where
  "extractRR rrset qtypes =
     (let m = qtypeMap qtypes
      in foldl (\<lambda>out rr. if m (Rrtype (Header rr)) \<noteq> None then out @ [rr] else out) [] rrset)"

definition extractRRMsg :: "Msg option \<Rightarrow> uint16 list \<Rightarrow> RR list" where
  "extractRRMsg msg qtypes = (case msg of Some m \<Rightarrow> extractRR (Answer m) qtypes | None \<Rightarrow> [])"

definition prepMsg :: "'w Env \<Rightarrow> 'w \<Rightarrow> Msg \<times> 'w" where
  "prepMsg env w =
     (let (i, w') = NewId env w
      in (\<lparr>MsgId = i, RecursionDesired = True, CheckingDisabled = False, Rcode = 0,
           Question = [\<lparr>Q_Name = [], Qtype = 0, Qclass = 0\<rparr>], Answer = [], Extra = []\<rparr>, w'))"

text \<open>
  \<^verbatim>\<open>query\<close>, in two parts: \<open>queryMsg\<close> is the message it builds, up to the assignment of the
  question, and \<open>query\<close> exchanges it and looks at the response code.
\<close>

definition queryMsg :: "'w Env \<Rightarrow> string \<Rightarrow> uint16 \<Rightarrow> bool \<Rightarrow> 'w \<Rightarrow> Msg \<times> 'w" where
  "queryMsg env q qtype sec w =
     (let (m0, w1) = prepMsg env w;
          m1 = m0\<lparr>CheckingDisabled := True\<rparr>;
          m2 = m1\<lparr>RecursionDesired := True\<rparr>;
          m3 = (if sec then SetEdns0 (m2\<lparr>CheckingDisabled := False\<rparr>) 4096 True else m2)
      in (m3\<lparr>Question := (Question m3)[0 := \<lparr>Q_Name = Fqdn env q, Qtype = qtype, Qclass = ClassINET\<rparr>]\<rparr>,
          w1))"

definition query ::
  "'w Env \<Rightarrow> string \<Rightarrow> uint16 \<Rightarrow> string \<Rightarrow> bool \<Rightarrow> 'w \<Rightarrow> (string + Response) \<times> 'w" where
  "query env q qtype server sec w =
     (let (m, w1) = queryMsg env q qtype sec w;
          (r, w2) = Exchange env m (JoinHostPort server ''53'') w1
      in case r of
           Inl err \<Rightarrow> (Inl err, w2)
         | Inr (in_msg, rtt) \<Rightarrow>
             if Rcode in_msg \<noteq> 0 then (Inl (''failure: '' @ RcodeToString (Rcode in_msg)), w2)
             else (Inr \<lparr>Resp_Msg = in_msg, Server = server, Rtt = rtt\<rparr>, w2))"

definition queryRRset ::
  "'w Env \<Rightarrow> string \<Rightarrow> uint16 \<Rightarrow> string \<Rightarrow> bool \<Rightarrow> 'w \<Rightarrow> (string + RR list \<times> Duration) \<times> 'w" where
  "queryRRset env q qtype server sec w =
     (case query env q qtype server sec w of
        (Inl err, w') \<Rightarrow> (Inl err, w')
      | (Inr res, w') \<Rightarrow>
          (let rrset = extractRR (Answer (Resp_Msg res)) [qtype]
           in if length rrset = 0 then (Inl (''no rr for '' @ fmtSharpV qtype), w')
              else (Inr (rrset, Rtt res), w')))"

definition getIP :: "'w Env \<Rightarrow> string \<Rightarrow> uint16 \<Rightarrow> string \<Rightarrow> 'w \<Rightarrow> IP list \<times> 'w" where
  "getIP env host qtype server w =
     (case queryRRset env host qtype server False w of
        (Inl err, w') \<Rightarrow> ([], w')
      | (Inr (rrset, rtt), w') \<Rightarrow> (extractIP rrset, w'))"

text \<open>
  \<^verbatim>\<open>findNS\<close>. The type assertion \<^verbatim>\<open>rr.(*dns.NS)\<close> panics on a record of another dynamic type:
  the body of the loop, the loop and \<^verbatim>\<open>findNS\<close> return \<open>None\<close> for the panic.
\<close>

definition findNS_body :: "'w Env \<Rightarrow> RR \<Rightarrow> NSData list \<Rightarrow> 'w \<Rightarrow> (NSData list \<times> 'w) option" where
  "findNS_body env rr nsdatas w =
     (case rr of
        NS h ns \<Rightarrow>
          (let (ipsA, w1) = getIP env ns TypeA (resolver env) w;
               ips1 = [] @ ipsA;
               (ipsAAAA, w2) = getIP env ns TypeAAAA (resolver env) w1;
               ips = ips1 @ ipsAAAA;
               nsinfos = foldl (\<lambda>nsinfos ip. nsinfos @
                            [\<lparr>NSInfo_IPInfo = \<lparr>IPInfo_IP = ip, IPInfo_Country = [], IPInfo_ASN = 0,
                                                IPInfo_Org = []\<rparr>,
                              NSInfo_Name = ns\<rparr>]) [] ips;
               nsdata = \<lparr>NSData_Name = ns, NSData_IP = ips, NSData_Info = nsinfos\<rparr>
           in Some (nsdatas @ [nsdata], w2))
      | _ \<Rightarrow> None)"

fun findNS_loop :: "'w Env \<Rightarrow> RR list \<Rightarrow> NSData list \<Rightarrow> 'w \<Rightarrow> (NSData list \<times> 'w) option" where
  "findNS_loop env [] nsdatas w = Some (nsdatas, w)"
| "findNS_loop env (rr # rrset) nsdatas w =
     (case findNS_body env rr nsdatas w of
        None \<Rightarrow> None
      | Some (nsdatas', w') \<Rightarrow> findNS_loop env rrset nsdatas' w')"

definition findNS :: "'w Env \<Rightarrow> string \<Rightarrow> 'w \<Rightarrow> ((string + NSData list) \<times> 'w) option" where
  "findNS env domain w =
     (case queryRRset env domain TypeNS (resolver env) False w of
        (Inl err, w1) \<Rightarrow> Some (Inl err, w1)
      | (Inr (rrset, rtt), w1) \<Rightarrow>
          (case findNS_loop env rrset [] w1 of
             None \<Rightarrow> None
           | Some (nsdatas, w2) \<Rightarrow>
               if length nsdatas = 0 then Some (Inl ''no NS found'', w2)
               else Some (Inr nsdatas, w2)))"

section \<open>utils.go: the parent of a domain\<close>

text \<open>
  \<^verbatim>\<open>dns.NextLabel(s, offset)\<close>, a function of the DNS library, looks for the first dot at or
  after \<open>offset\<close> and before the last byte that an even number of backslashes precedes, and
  returns the index after it; the flag says that there is none. The model follows the
  library's loops over the bytes of the string: \<open>escScan\<close> is the inner one, which walks \<open>j\<close>
  back over the backslashes; the remainder \<^verbatim>\<open>(j-i)%2\<close> is Go's, of the sign of the dividend.
\<close>

definition go_rem :: "int \<Rightarrow> int \<Rightarrow> int" where
  "go_rem a b = sgn a * (\<bar>a\<bar> mod \<bar>b\<bar>)"

function escScan :: "string \<Rightarrow> int \<Rightarrow> int" where
  "escScan s j = (if 0 \<le> j \<and> s ! nat j = backslash then escScan s (j - 1) else j)"
  by pat_completeness auto
termination
  by (relation "measure (\<lambda>(s, j). nat (j + 1))") auto

declare escScan.simps [simp del]

function NextLabel_loop :: "string \<Rightarrow> nat \<Rightarrow> nat \<times> bool" where
  "NextLabel_loop s i =
     (if int i < int (length s) - 1 then
        (if s ! i \<noteq> CHR ''.'' then NextLabel_loop s (i + 1)
         else let j = escScan s (int i - 1) in
           if go_rem (j - int i) 2 = 0 then NextLabel_loop s (i + 1)
           else (i + 1, False))
      else (i + 1, True))"
  by pat_completeness auto
termination
  by (relation "measure (\<lambda>(s, i). length s - i)") auto

declare NextLabel_loop.simps [simp del]

definition NextLabel :: "string \<Rightarrow> nat \<Rightarrow> nat \<times> bool" where
  "NextLabel s offset = (if s = [] then (0, True) else NextLabel_loop s offset)"

definition getParentDomain :: "string \<Rightarrow> string" where
  "getParentDomain domain =
     (let (i, atEnd) = NextLabel domain 0
      in if \<not> atEnd then drop i domain else ''.'')"

section \<open>utils.go: the scan error classifier\<close>

text \<open>
  \<^verbatim>\<open>scanerror\<close> appends to the report it is given a pointer to: the model returns the flag and
  the report. A nil error is \<open>None\<close>; \<^verbatim>\<open>%s\<close> prints a string as it is and an error by its message.
\<close>

definition scanerror ::
  "Report \<Rightarrow> string \<Rightarrow> string \<Rightarrow> string \<Rightarrow> string \<Rightarrow> RR list \<Rightarrow> string option \<Rightarrow> bool \<times> Report" where
  "scanerror r check ns ip domain results err =
     (let fail = False;
          (r1, fail1) =
            (case err of
               Some e \<Rightarrow>
                 ((if \<not> strings_Contains e ''NXDOMAIN'' \<and> \<not> strings_Contains e ''no rr for''
                   then r\<lparr>Report_Result := Report_Result r @
                          [\<lparr>Result = ''ERR : '' @ check @ '' failed on '' @ ns @ '' ('' @ ip @ ''): '' @ e\<rparr>]\<rparr>
                   else r), True)
             | None \<Rightarrow> (r, fail));
          fail2 = (if length results = 0 \<and> err = None then True else fail1)
      in (fail2, r1))"

section \<open>Reference notions for the topology checks\<close>

text \<open>
  These follow the specification's words and are compared with the code below. An address is
  an IPv4 address when it has a 4-byte form; \<open>ipnetsOf\<close> is the /24 networks of the IPv4
  addresses of a list and \<open>ipv4Count\<close> is their number. The /24 network of an address is given
  by the first three bytes of its 4-byte form. An IPv4 address read as a 32-bit number lies in
  \<open>base/len\<close> when it has the first \<open>len\<close> bits of \<open>base\<close>.
\<close>

definition ipnetsOf :: "IP list \<Rightarrow> IPNet list" where
  "ipnetsOf ips = map (\<lambda>ip. \<lparr>IP = ip, Mask = CIDRMask 24 32\<rparr>) (filter (\<lambda>ip. To4 ip \<noteq> None) ips)"

definition ipv4Count :: "IP list \<Rightarrow> nat" where
  "ipv4Count ips = length (filter (\<lambda>ip. To4 ip \<noteq> None) ips)"

definition net24 :: "IP \<Rightarrow> byte list option" where
  "net24 ip = map_option (take 3) (To4 ip)"

definition ipv4Value :: "byte list \<Rightarrow> nat" where
  "ipv4Value x = foldl (\<lambda>v b. v * 256 + unat b) 0 x"

definition inCIDR :: "nat \<Rightarrow> nat \<Rightarrow> nat \<Rightarrow> bool" where
  "inCIDR base len v = (v div 2 ^ (32 - len) = base div 2 ^ (32 - len))"

section \<open>Reference notion for the parent of a domain\<close>

text \<open>
  In the specification's words: a dot is escaped when an odd number of backslashes stands
  immediately before it; a label ends at a dot that is not escaped; the parent of a domain is
  what follows the end of its leftmost label, when something follows it, and the root
  otherwise.
\<close>

definition escapedAt :: "string \<Rightarrow> nat \<Rightarrow> bool" where
  "escapedAt s i = odd (length (takeWhile (\<lambda>c. c = backslash) (rev (take i s))))"

definition labelBoundary :: "string \<Rightarrow> nat \<Rightarrow> bool" where
  "labelBoundary s i = (s ! i = CHR ''.'' \<and> \<not> escapedAt s i)"

definition parentOf :: "string \<Rightarrow> string" where
  "parentOf s =
     (case filter (labelBoundary s) [0 ..< length s - 1] of
        [] \<Rightarrow> ''.''
      | i # _ \<Rightarrow> drop (i + 1) s)"

section \<open>Reference notions for nameserver discovery\<close>

text \<open>
  The library chooses the dynamic type of a record it unpacks from the type in its header, and
  an unknown type gets a generic record: every record of a reply is well typed. The
  theorems on \<open>findNS\<close> that need it assume it of the replies of the environment.
\<close>

definition wellTyped :: "RR \<Rightarrow> bool" where
  "wellTyped rr =
     (case rr of
        A h ip \<Rightarrow> Rrtype h = TypeA
      | AAAA h ip \<Rightarrow> Rrtype h = TypeAAAA
      | NS h ns \<Rightarrow> Rrtype h = TypeNS
      | OPT h \<Rightarrow> Rrtype h = TypeOPT
      | OtherRR h \<Rightarrow> Rrtype h \<noteq> TypeA \<and> Rrtype h \<noteq> TypeAAAA \<and> Rrtype h \<noteq> TypeNS \<and>
                    Rrtype h \<noteq> TypeOPT)"

definition wellTypedEnv :: "'w Env \<Rightarrow> bool" where
  "wellTypedEnv env =
     (\<forall>m a w in_msg rtt w'. Exchange env m a w = (Inr (in_msg, rtt), w') \<longrightarrow>
        list_all wellTyped (Answer in_msg))"

fun isA :: "RR \<Rightarrow> bool" where
  "isA (A h ip) = True"
| "isA rr = False"

fun isAAAA :: "RR \<Rightarrow> bool" where
  "isAAAA (AAAA h ip) = True"
| "isAAAA rr = False"

text \<open>
  A record set \<open>rs\<close> is what a lookup of \<open>qtype\<close> for \<open>host\<close> gave to \<open>getIP\<close>: the records of a
  successful \<open>queryRRset\<close> in some state of the world, or nothing.
\<close>

definition lookedUp :: "'w Env \<Rightarrow> string \<Rightarrow> uint16 \<Rightarrow> RR list \<Rightarrow> bool" where
  "lookedUp env host qtype rs =
     (rs = [] \<or> (\<exists>w rtt w'. queryRRset env host qtype (resolver env) False w = (Inr (rs, rtt), w')))"

text \<open>A host resolves to no address when its lookups of both address types fail in every state.\<close>

definition noAddress :: "'w Env \<Rightarrow> string \<Rightarrow> bool" where
  "noAddress env host =
     (\<forall>w. (\<exists>e w'. queryRRset env host TypeA (resolver env) False w = (Inl e, w')) \<and>
          (\<exists>e w'. queryRRset env host TypeAAAA (resolver env) False w = (Inl e, w')))"

fun addrOf :: "RR \<Rightarrow> IP" where
  "addrOf (A h ip) = ip"
| "addrOf (AAAA h ip) = ip"
| "addrOf rr = []"

text \<open>
  What discovery makes of one record \<open>rr\<close> of the NS record set: the entry \<open>d\<close> has the name of
  the record's target, the addresses of the A records looked up for that name followed by the
  addresses of the AAAA records looked up for it, an information entry for each address, and
  no address when the name resolves to none.
\<close>

definition nsinfoOf :: "string \<Rightarrow> IP \<Rightarrow> NSInfo" where
  "nsinfoOf ns ip =
     \<lparr>NSInfo_IPInfo = \<lparr>IPInfo_IP = ip, IPInfo_Country = [], IPInfo_ASN = 0, IPInfo_Org = []\<rparr>,
      NSInfo_Name = ns\<rparr>"

definition discovered :: "'w Env \<Rightarrow> RR \<Rightarrow> NSData \<Rightarrow> bool" where
  "discovered env rr d =
     ((\<exists>h. rr = NS h (NSData_Name d)) \<and>
      (\<exists>rsA rsAAAA.
         lookedUp env (NSData_Name d) TypeA rsA \<and> lookedUp env (NSData_Name d) TypeAAAA rsAAAA \<and>
         NSData_IP d = extractIP rsA @ extractIP rsAAAA) \<and>
      NSData_Info d = map (nsinfoOf (NSData_Name d)) (NSData_IP d) \<and>
      (noAddress env (NSData_Name d) \<longrightarrow> NSData_IP d = []))"

text \<open>
  The run of discovery. The lookups for the records of the NS record set follow one another:
  \<open>lookupStates\<close> gives, for each record, the state of the world in which its lookups begin,
  and \<open>afterLookups\<close> the state in which they end. The entry \<open>d\<close> is built from the record \<open>rr\<close>
  in the state \<open>w\<close> when it has the name of the record's target and the addresses that the
  lookup of type A in \<open>w\<close> and the lookup of type AAAA in the state after it gave. The lookups
  of a name fail in \<open>w\<close> when the lookup of type A in \<open>w\<close> returns an error and the lookup of
  type AAAA in the state after it returns one as well.
\<close>

definition afterLookups :: "'w Env \<Rightarrow> string \<Rightarrow> 'w \<Rightarrow> 'w" where
  "afterLookups env ns w =
     snd (getIP env ns TypeAAAA (resolver env) (snd (getIP env ns TypeA (resolver env) w)))"

fun lookupStates :: "'w Env \<Rightarrow> RR list \<Rightarrow> 'w \<Rightarrow> 'w list" where
  "lookupStates env [] w = []"
| "lookupStates env (NS h ns # rrset) w = w # lookupStates env rrset (afterLookups env ns w)"
| "lookupStates env (rr # rrset) w = w # lookupStates env rrset w"

definition builtAt :: "'w Env \<Rightarrow> RR \<Rightarrow> 'w \<Rightarrow> NSData \<Rightarrow> bool" where
  "builtAt env rr w d =
     (\<exists>h ns. rr = NS h ns \<and> NSData_Name d = ns \<and>
        NSData_IP d =
          fst (getIP env ns TypeA (resolver env) w) @
          fst (getIP env ns TypeAAAA (resolver env) (snd (getIP env ns TypeA (resolver env) w))) \<and>
        NSData_Info d = map (nsinfoOf ns) (NSData_IP d))"

definition lookupsFail :: "'w Env \<Rightarrow> string \<Rightarrow> 'w \<Rightarrow> bool" where
  "lookupsFail env ns w =
     (\<exists>e w1 e' w2.
        queryRRset env ns TypeA (resolver env) False w = (Inl e, w1) \<and>
        queryRRset env ns TypeAAAA (resolver env) False w1 = (Inl e', w2))"

section \<open>An environment to run the code in\<close>

text \<open>
  A resolver that knows one zone: \<open>example.com.\<close> has the nameservers \<open>ns1\<close> and \<open>ns2\<close>; \<open>ns1\<close> has
  one IPv4 address and no IPv6 address; a question about the addresses of \<open>ns2\<close> is refused or
  times out; every other name does not exist. The state counts the exchanges, and a name is
  made fully qualified by a dot at its end unless it has one.
\<close>

definition exampleHdr :: "string \<Rightarrow> uint16 \<Rightarrow> RR_Header" where
  "exampleHdr name t = \<lparr>Name = name, Rrtype = t, Class = ClassINET, Ttl = 3600, Rdlength = 0\<rparr>"

definition exampleAnswer :: "Question \<Rightarrow> string + int \<times> RR list" where
  "exampleAnswer q =
     (if Q_Name q = ''example.com.'' \<and> Qtype q = TypeNS then
        Inr (0, [NS (exampleHdr ''example.com.'' TypeNS) ''ns1.example.com.'',
                 OtherRR (exampleHdr ''example.com.'' 46),
                 NS (exampleHdr ''example.com.'' TypeNS) ''ns2.example.com.''])
      else if Q_Name q = ''ns1.example.com.'' \<and> Qtype q = TypeA then
        Inr (0, [A (exampleHdr ''ns1.example.com.'' TypeA) [203, 0, 113, 1]])
      else if Q_Name q = ''ns1.example.com.'' then Inr (0, [])
      else if Q_Name q = ''ns2.example.com.'' \<and> Qtype q = TypeA then Inr (5, [])
      else if Q_Name q = ''ns2.example.com.'' then Inl ''read udp: i/o timeout''
      else Inr (3, []))"

definition exampleExchange :: "Msg \<Rightarrow> string \<Rightarrow> nat \<Rightarrow> (string + Msg \<times> Duration) \<times> nat" where
  "exampleExchange m addr w =
     (case Question m of
        [q] \<Rightarrow>
          (case exampleAnswer q of
             Inl e \<Rightarrow> (Inl e, w + 1)
           | Inr (rc, ans) \<Rightarrow> (Inr (m\<lparr>Rcode := rc, Answer := ans\<rparr>, 20000000), w + 1))
      | _ \<Rightarrow> (Inl ''dns: bad question'', w + 1))"

definition exampleEnv :: "nat Env" where
  "exampleEnv = \<lparr>Exchange = exampleExchange, NewId = (\<lambda>w. (word_of_nat w, w)),
                  resolver = ''192.0.2.53'',
                  Fqdn = (\<lambda>s. if s \<noteq> [] \<and> last s = CHR ''.'' then s else s @ ''.'')\<rparr>"

text \<open>The NS record set of \<open>example.com.\<close> and what discovery is expected to make of it.\<close>

definition exampleNSset :: "RR list" where
  "exampleNSset =
     [NS (exampleHdr ''example.com.'' TypeNS) ''ns1.example.com.'',
      NS (exampleHdr ''example.com.'' TypeNS) ''ns2.example.com.'']"

definition exampleNsdatas :: "NSData list" where
  "exampleNsdatas =
     [\<lparr>NSData_Name = ''ns1.example.com.'', NSData_IP = [[203, 0, 113, 1]],
       NSData_Info = [nsinfoOf ''ns1.example.com.'' [203, 0, 113, 1]]\<rparr>,
      \<lparr>NSData_Name = ''ns2.example.com.'', NSData_IP = [], NSData_Info = []\<rparr>]"

text \<open>
  The same resolver with a passing failure: from the fifth exchange on it answers the
  questions about \<open>ns2\<close>, with one IPv4 address and no IPv6 address.
\<close>

definition flakyExchange :: "Msg \<Rightarrow> string \<Rightarrow> nat \<Rightarrow> (string + Msg \<times> Duration) \<times> nat" where
  "flakyExchange m addr w =
     (case Question m of
        [q] \<Rightarrow>
          if Q_Name q = ''ns2.example.com.'' \<and> 5 \<le> w then
            (Inr (m\<lparr>Rcode := 0,
                    Answer := (if Qtype q = TypeA
                               then [A (exampleHdr ''ns2.example.com.'' TypeA) [198, 51, 100, 2]]
                               else [])\<rparr>, 20000000), w + 1)
          else exampleExchange m addr w
      | _ \<Rightarrow> exampleExchange m addr w)"

definition flakyEnv :: "nat Env" where
  "flakyEnv = exampleEnv\<lparr>Exchange := flakyExchange\<rparr>"

section \<open>Facts about addresses and masks\<close>

lemma To4_length: "To4 ip = Some x \<Longrightarrow> length x = 4"
  by (auto simp: To4_def split: if_splits)

lemma To4_None_length: "To4 ip = None \<Longrightarrow> length ip \<noteq> 4"
  by (auto simp: To4_def split: if_splits)

lemma To4_IPv4: "To4 (IPv4 a b c d) = Some [a, b, c, d]"
  by (simp add: To4_def IPv4_def v4InV6Prefix_def)

lemma length4E: "length x = 4 \<Longrightarrow> \<exists>a b c d. x = [a, b, c, d]"
  by (auto simp: length_Suc_conv numeral_eq_Suc)

lemma upt4: "[0 ..< 4] = [0, 1, 2, 3]"
  by (simp add: upt_rec)

lemma byte_lt: "unat (b :: byte) < 256"
  using unsigned_less [of b] by simp

lemma and_ff: "(x :: byte) AND 0xff = x"
proof -
  have "(0xff :: byte) = - 1" by simp
  then show ?thesis by (simp only: and.right_neutral)
qed

lemma f0_not_mask: "(0xf0 :: byte) = NOT (mask 4)"
  by (simp add: mask_eq_exp_minus_1)

lemma and_f0_drop: "(b :: byte) AND 0xf0 = push_bit 4 (drop_bit 4 b)"
  unfolding f0_not_mask
  by (rule bit_word_eqI) (auto simp: bit_simps)

lemma unat_and_f0: "unat ((b :: byte) AND 0xf0) = (unat b div 16) * 16"
proof -
  have "unat (push_bit 4 (drop_bit 4 b)) = take_bit LENGTH(8) (push_bit 4 (drop_bit 4 (unat b)))"
    by (simp only: unsigned_push_bit_eq unat_drop_bit_eq)
  also have "\<dots> = take_bit 8 (16 * (unat b div 16))"
    by (simp add: push_bit_eq_mult drop_bit_eq_div mult.commute)
  also have "\<dots> = 16 * (unat b div 16)"
    using byte_lt [of b] by (simp add: take_bit_eq_mod)
  finally show ?thesis by (simp add: and_f0_drop)
qed

lemma and_f0_range: "(b :: byte) AND 0xf0 = 0x10 \<longleftrightarrow> unat b div 16 = 1"
proof -
  have "(b AND 0xf0 = 0x10) = (unat (b AND 0xf0) = unat (0x10 :: byte))"
    by (simp only: word_unat_eq_iff)
  also have "\<dots> = ((unat b div 16) * 16 = 16)"
    by (simp add: unat_and_f0)
  also have "\<dots> = (unat b div 16 = 1)"
    by auto
  finally show ?thesis .
qed

lemma CIDRMask_24: "CIDRMask 24 32 = [0xff, 0xff, 0xff, 0]"
  by code_simp

subsection \<open>The private ranges\<close>

lemma private_nets:
  "networkNumberAndMask \<lparr>IP = IPv4 10 0 0 0, Mask = CIDRMask 8 32\<rparr> =
     Some ([10, 0, 0, 0], [0xff, 0, 0, 0])"
  "networkNumberAndMask \<lparr>IP = IPv4 192 168 0 0, Mask = CIDRMask 16 32\<rparr> =
     Some ([192, 168, 0, 0], [0xff, 0xff, 0, 0])"
  "networkNumberAndMask \<lparr>IP = IPv4 172 16 0 0, Mask = CIDRMask 12 32\<rparr> =
     Some ([172, 16, 0, 0], [0xff, 0xf0, 0, 0])"
  by code_simp+

lemma isRFC1918_bytes:
  assumes "To4 ip = Some [a, b, c, d]"
  shows "isRFC1918 ip \<longleftrightarrow> a = 10 \<or> (a = 192 \<and> b = 168) \<or> (a = 172 \<and> unat b div 16 = 1)"
  using assms
  by (auto simp add: isRFC1918_def Contains_def private_nets maskedEq_def upt4 and_ff and_f0_range)

lemma isRFC1918_not_IPv4: "To4 ip = None \<Longrightarrow> \<not> isRFC1918 ip"
  using To4_None_length [of ip]
  by (auto simp add: isRFC1918_def Contains_def private_nets)

lemma ipv4Value_4:
  "ipv4Value [a, b, c, d] = ((unat a * 256 + unat b) * 256 + unat c) * 256 + unat d"
  by (simp add: ipv4Value_def)

lemma div24:
  fixes A B C D :: nat
  assumes "B < 256" "C < 256" "D < 256"
  shows "(((A * 256 + B) * 256 + C) * 256 + D) div 16777216 = A"
  by (rule div_nat_eqI) (use assms in simp_all)

lemma div16:
  fixes A B C D :: nat
  assumes "C < 256" "D < 256"
  shows "(((A * 256 + B) * 256 + C) * 256 + D) div 65536 = A * 256 + B"
  by (rule div_nat_eqI) (use assms in simp_all)

lemma div20:
  fixes A B C D :: nat
  assumes "C < 256" "D < 256"
  shows "(((A * 256 + B) * 256 + C) * 256 + D) div 1048576 = A * 16 + B div 16"
proof -
  have "(((A * 256 + B) * 256 + C) * 256 + D) div 65536 div 16 = A * 16 + B div 16"
    unfolding div16 [OF assms] by simp
  then show ?thesis by (simp add: div_mult2_eq [symmetric])
qed

lemma split_base:
  fixes A B k n :: nat
  assumes "B < k"
  shows "A * k + B = n \<longleftrightarrow> A = n div k \<and> B = n mod k"
proof
  assume "A * k + B = n"
  then have "n div k = A" "n mod k = B" using assms by auto
  then show "A = n div k \<and> B = n mod k" by simp
next
  assume "A = n div k \<and> B = n mod k"
  then show "A * k + B = n" by simp
qed

lemma inCIDR_8: "inCIDR (ipv4Value [10, 0, 0, 0]) 8 (ipv4Value [a, b, c, d]) \<longleftrightarrow> a = 10"
proof -
  have "ipv4Value [a, b, c, d] div 16777216 = unat a"
    unfolding ipv4Value_4 by (rule div24) (rule byte_lt)+
  then show ?thesis
    by (simp add: inCIDR_def ipv4Value_4 [of 10 0 0 0] word_unat_eq_iff)
qed

lemma inCIDR_16:
  "inCIDR (ipv4Value [192, 168, 0, 0]) 16 (ipv4Value [a, b, c, d]) \<longleftrightarrow> a = 192 \<and> b = 168"
proof -
  have "ipv4Value [a, b, c, d] div 65536 = unat a * 256 + unat b"
    unfolding ipv4Value_4 by (rule div16) (rule byte_lt)+
  moreover have "unat a * 256 + unat b = 49320 \<longleftrightarrow> unat a = 192 \<and> unat b = 168"
    using split_base [of "unat b" 256 "unat a" 49320] byte_lt [of b] by simp
  ultimately show ?thesis
    by (simp add: inCIDR_def ipv4Value_4 [of 192 168 0 0] word_unat_eq_iff)
qed

lemma inCIDR_12:
  "inCIDR (ipv4Value [172, 16, 0, 0]) 12 (ipv4Value [a, b, c, d]) \<longleftrightarrow>
     a = 172 \<and> unat b div 16 = 1"
proof -
  have q: "unat b div 16 < 16"
    using byte_lt [of b] by simp
  have "ipv4Value [a, b, c, d] div 1048576 = unat a * 16 + unat b div 16"
    unfolding ipv4Value_4 by (rule div20) (rule byte_lt)+
  moreover have "unat a * 16 + unat b div 16 = 2753 \<longleftrightarrow> unat a = 172 \<and> unat b div 16 = 1"
    using split_base [of "unat b div 16" 16 "unat a" 2753] q by simp
  ultimately show ?thesis
    by (simp add: inCIDR_def ipv4Value_4 [of 172 16 0 0] word_unat_eq_iff)
qed

lemma isRFC1918_inCIDR:
  assumes "To4 ip = Some x"
  shows "isRFC1918 ip \<longleftrightarrow>
           inCIDR (ipv4Value [10, 0, 0, 0]) 8 (ipv4Value x) \<or>
           inCIDR (ipv4Value [172, 16, 0, 0]) 12 (ipv4Value x) \<or>
           inCIDR (ipv4Value [192, 168, 0, 0]) 16 (ipv4Value x)"
proof -
  obtain a b c d where x: "x = [a, b, c, d]"
    using To4_length [OF assms] length4E by blast
  show ?thesis
    unfolding x inCIDR_8 inCIDR_12 inCIDR_16
    using isRFC1918_bytes [of ip a b c d] assms x by blast
qed

lemma isRFC1918_examples:
  "isRFC1918 [10, 1, 2, 3]" "isRFC1918 [172, 16, 0, 5]" "isRFC1918 [192, 168, 1, 1]"
  "\<not> isRFC1918 [8, 8, 8, 8]"
  "isRFC1918 (IPv4 10 1 2 3)" "isRFC1918 (IPv4 172 16 0 5)" "isRFC1918 (IPv4 192 168 1 1)"
  "\<not> isRFC1918 (IPv4 8 8 8 8)"
  by code_simp+

text \<open>
  C7. For an address with a 4-byte form \<open>x\<close>, \<open>isRFC1918\<close> is true exactly when \<open>x\<close>, read as a
  32-bit number, lies in 10.0.0.0/8, 172.16.0.0/12 or 192.168.0.0/16; it is true for
  10.1.2.3, 172.16.0.5 and 192.168.1.1 and false for 8.8.8.8, in the 4-byte and in the
  16-byte form of these addresses.
\<close>

theorem isRFC1918_private_ranges:
  "(\<forall>x. To4 ip = Some x \<longrightarrow>
      (isRFC1918 ip \<longleftrightarrow>
         inCIDR (ipv4Value [10, 0, 0, 0]) 8 (ipv4Value x) \<or>
         inCIDR (ipv4Value [172, 16, 0, 0]) 12 (ipv4Value x) \<or>
         inCIDR (ipv4Value [192, 168, 0, 0]) 16 (ipv4Value x))) \<and>
   isRFC1918 [10, 1, 2, 3] \<and> isRFC1918 [172, 16, 0, 5] \<and> isRFC1918 [192, 168, 1, 1] \<and>
   \<not> isRFC1918 [8, 8, 8, 8] \<and>
   isRFC1918 (IPv4 10 1 2 3) \<and> isRFC1918 (IPv4 172 16 0 5) \<and> isRFC1918 (IPv4 192 168 1 1) \<and>
   \<not> isRFC1918 (IPv4 8 8 8 8)"
  using isRFC1918_inCIDR [of ip] isRFC1918_examples by blast

theorem isRFC1918_private_ranges_witness:
  "To4 [172, 31, 255, 255] = Some [172, 31, 255, 255] \<and> isRFC1918 [172, 31, 255, 255] \<and>
   inCIDR (ipv4Value [172, 16, 0, 0]) 12 (ipv4Value [172, 31, 255, 255]) \<and>
   To4 [172, 32, 0, 0] = Some [172, 32, 0, 0] \<and> \<not> isRFC1918 [172, 32, 0, 0]"
proof -
  have a: "To4 [172, 31, 255, 255] = Some [172, 31, 255, 255]"
    and b: "To4 [172, 32, 0, 0] = Some [172, 32, 0, 0]"
    by (simp_all add: To4_def)
  have c: "inCIDR (ipv4Value [172, 16, 0, 0]) 12 (ipv4Value [172, 31, 255, 255])"
    by (simp add: inCIDR_def ipv4Value_def)
  have d: "\<not> (inCIDR (ipv4Value [10, 0, 0, 0]) 8 (ipv4Value [172, 32, 0, 0]) \<or>
              inCIDR (ipv4Value [172, 16, 0, 0]) 12 (ipv4Value [172, 32, 0, 0]) \<or>
              inCIDR (ipv4Value [192, 168, 0, 0]) 16 (ipv4Value [172, 32, 0, 0]))"
    by (simp add: inCIDR_def ipv4Value_def)
  have "isRFC1918 [172, 31, 255, 255]"
    using isRFC1918_private_ranges [of "[172, 31, 255, 255]", THEN conjunct1, rule_format, OF a] c
    by blast
  moreover have "\<not> isRFC1918 [172, 32, 0, 0]"
    using isRFC1918_private_ranges [of "[172, 32, 0, 0]", THEN conjunct1, rule_format, OF b] d
    by blast
  ultimately show ?thesis using a b c by blast
qed

subsection \<open>The same-subnet check\<close>

lemma maskedEq_24:
  "maskedEq [a, b, c, d] [0xff, 0xff, 0xff, 0] [a', b', c', d'] \<longleftrightarrow> a = a' \<and> b = b' \<and> c = c'"
  by (simp add: maskedEq_def upt4 and_ff)

lemma Contains_24:
  assumes "To4 a = Some x"
  shows "Contains \<lparr>IP = a, Mask = CIDRMask 24 32\<rparr> b \<longleftrightarrow>
           (\<exists>y. To4 b = Some y \<and> take 3 y = take 3 x)"
proof -
  have lx: "length x = 4" using assms by (rule To4_length)
  then obtain x0 x1 x2 x3 where x: "x = [x0, x1, x2, x3]" using length4E by blast
  have nn: "networkNumberAndMask \<lparr>IP = a, Mask = CIDRMask 24 32\<rparr> = Some (x, [0xff, 0xff, 0xff, 0])"
    using assms lx by (simp add: networkNumberAndMask_def CIDRMask_24)
  show ?thesis
  proof (cases "To4 b")
    case None
    then show ?thesis
      using lx To4_None_length [OF None] by (simp add: Contains_def nn)
  next
    case (Some y)
    then have "length y = 4" by (rule To4_length)
    then obtain y0 y1 y2 y3 where y: "y = [y0, y1, y2, y3]" using length4E by blast
    show ?thesis
      using Some by (auto simp add: Contains_def nn x y maskedEq_24)
  qed
qed

lemma Contains_24_To4:
  "To4 a \<noteq> None \<Longrightarrow> Contains \<lparr>IP = a, Mask = CIDRMask 24 32\<rparr> b \<Longrightarrow> To4 b \<noteq> None"
  by (auto simp: Contains_24)

lemma Contains_24_net24:
  "To4 a \<noteq> None \<Longrightarrow> To4 b \<noteq> None \<Longrightarrow>
     Contains \<lparr>IP = a, Mask = CIDRMask 24 32\<rparr> b \<longleftrightarrow> net24 b = net24 a"
  by (auto simp: Contains_24 net24_def)

text \<open>The two counting loops as sums.\<close>

lemma inner_count:
  "foldl (\<lambda>count ip. if P ip then count + 1 else count) (c::nat) ips = c + length (filter P ips)"
  by (induction ips arbitrary: c) auto

lemma outer_count:
  "foldl (\<lambda>count x. count + f x) (c::nat) xs = c + sum_list (map f xs)"
  by (induction xs arbitrary: c) auto

lemma containsCount_sum:
  "containsCount ipnets ips = sum_list (map (\<lambda>n. length (filter (Contains n) ips)) ipnets)"
  by (simp add: containsCount_def inner_count outer_count)

lemma sum_list_bounded_eq:
  fixes f :: "'a \<Rightarrow> nat"
  assumes "\<And>x. x \<in> set xs \<Longrightarrow> f x \<le> n"
  shows "sum_list (map f xs) \<le> length xs * n \<and>
         (sum_list (map f xs) = length xs * n \<longleftrightarrow> (\<forall>x\<in>set xs. f x = n))"
  using assms
proof (induction xs)
  case Nil
  show ?case by simp
next
  case (Cons x xs)
  have a: "f x \<le> n" using Cons.prems by simp
  have b: "sum_list (map f xs) \<le> length xs * n"
    and c: "sum_list (map f xs) = length xs * n \<longleftrightarrow> (\<forall>x\<in>set xs. f x = n)"
    using Cons.IH Cons.prems by simp_all
  show ?case using a b c by auto
qed

lemma filter_length_eq_iff: "length (filter P xs) = length xs \<longleftrightarrow> (\<forall>x\<in>set xs. P x)"
proof (induction xs)
  case Nil
  show ?case by simp
next
  case (Cons x xs)
  have "length (filter P xs) \<noteq> Suc (length xs)"
    using length_filter_le [of P xs] by arith
  then show ?case using Cons.IH by auto
qed

text \<open>Only addresses with a 4-byte form are ever counted.\<close>

lemma count_as_sum:
  "containsCount (ipnetsOf ips) ips =
     sum_list (map (\<lambda>a. length (filter (Contains \<lparr>IP = a, Mask = CIDRMask 24 32\<rparr>)
                                   (filter (\<lambda>ip. To4 ip \<noteq> None) ips)))
                   (filter (\<lambda>ip. To4 ip \<noteq> None) ips))"
proof -
  have "length (filter (Contains \<lparr>IP = a, Mask = CIDRMask 24 32\<rparr>) ips) =
        length (filter (Contains \<lparr>IP = a, Mask = CIDRMask 24 32\<rparr>)
                  (filter (\<lambda>ip. To4 ip \<noteq> None) ips))"
    if "To4 a \<noteq> None" for a
  proof -
    have "filter (Contains \<lparr>IP = a, Mask = CIDRMask 24 32\<rparr>) (filter (\<lambda>ip. To4 ip \<noteq> None) ips) =
          filter (Contains \<lparr>IP = a, Mask = CIDRMask 24 32\<rparr>) ips"
      unfolding filter_filter
      by (rule filter_cong [OF refl]) (use that Contains_24_To4 in blast)
    then show ?thesis by simp
  qed
  then have "map (\<lambda>a. length (filter (Contains \<lparr>IP = a, Mask = CIDRMask 24 32\<rparr>) ips))
                 (filter (\<lambda>ip. To4 ip \<noteq> None) ips) =
             map (\<lambda>a. length (filter (Contains \<lparr>IP = a, Mask = CIDRMask 24 32\<rparr>)
                                   (filter (\<lambda>ip. To4 ip \<noteq> None) ips)))
                 (filter (\<lambda>ip. To4 ip \<noteq> None) ips)"
    by (intro map_cong [OF refl]) simp
  then have byv4: "sum_list (map (\<lambda>a. length (filter (Contains \<lparr>IP = a, Mask = CIDRMask 24 32\<rparr>) ips))
                 (filter (\<lambda>ip. To4 ip \<noteq> None) ips)) =
             sum_list (map (\<lambda>a. length (filter (Contains \<lparr>IP = a, Mask = CIDRMask 24 32\<rparr>)
                                   (filter (\<lambda>ip. To4 ip \<noteq> None) ips)))
                 (filter (\<lambda>ip. To4 ip \<noteq> None) ips))"
    by (rule arg_cong)
  have loops: "containsCount (ipnetsOf ips) ips =
      sum_list (map (\<lambda>a. length (filter (Contains \<lparr>IP = a, Mask = CIDRMask 24 32\<rparr>) ips))
                 (filter (\<lambda>ip. To4 ip \<noteq> None) ips))"
    by (simp add: containsCount_sum ipnetsOf_def comp_def)
  show ?thesis by (rule trans [OF loops byv4])
qed

lemma count_bound_and_eq:
  defines "v4 \<equiv> \<lambda>ips. filter (\<lambda>ip. To4 ip \<noteq> None) ips"
  shows "containsCount (ipnetsOf ips) ips \<le> length (v4 ips) * length (v4 ips)"
    and "containsCount (ipnetsOf ips) ips = length (v4 ips) * length (v4 ips) \<longleftrightarrow>
           (\<forall>a\<in>set (v4 ips). \<forall>b\<in>set (v4 ips). Contains \<lparr>IP = a, Mask = CIDRMask 24 32\<rparr> b)"
proof -
  let ?f = "\<lambda>a. length (filter (Contains \<lparr>IP = a, Mask = CIDRMask 24 32\<rparr>) (v4 ips))"
  have bnd: "\<And>a. a \<in> set (v4 ips) \<Longrightarrow> ?f a \<le> length (v4 ips)" by simp
  have cs: "containsCount (ipnetsOf ips) ips = sum_list (map ?f (v4 ips))"
    unfolding v4_def by (rule count_as_sum)
  show "containsCount (ipnetsOf ips) ips \<le> length (v4 ips) * length (v4 ips)"
    using sum_list_bounded_eq [of "v4 ips" ?f "length (v4 ips)", OF bnd] cs by simp
  show "containsCount (ipnetsOf ips) ips = length (v4 ips) * length (v4 ips) \<longleftrightarrow>
           (\<forall>a\<in>set (v4 ips). \<forall>b\<in>set (v4 ips). Contains \<lparr>IP = a, Mask = CIDRMask 24 32\<rparr> b)"
    using sum_list_bounded_eq [of "v4 ips" ?f "length (v4 ips)", OF bnd] cs
    by (simp add: filter_length_eq_iff)
qed

lemma collectNets_acc:
  "foldl (\<lambda>(ipnets, ipv4) ip.
            if To4 ip \<noteq> None then (ipnets @ [\<lparr>IP = ip, Mask = CIDRMask 24 32\<rparr>], ipv4 + 1)
            else (ipnets, ipv4))
     (acc, n) ips = (acc @ ipnetsOf ips, n + ipv4Count ips)"
  by (induction ips arbitrary: acc n) (simp_all add: ipnetsOf_def ipv4Count_def)

lemma collectNets_eq: "collectNets ips = (ipnetsOf ips, ipv4Count ips)"
  using collectNets_acc [of "[]" 0 ips] by (simp add: collectNets_def)

text \<open>Below \<open>2 ^ 32\<close> addresses neither the count nor the product reaches \<open>2 ^ 64\<close>.\<close>

lemma isSameSubnet_no_wrap:
  assumes "length ips < 2 ^ 32"
  shows "isSameSubnet ips \<longleftrightarrow>
           containsCount (ipnetsOf ips) ips = ipv4Count ips * length (ipnetsOf ips)"
proof -
  let ?n = "length (filter (\<lambda>ip. To4 ip \<noteq> None) ips)"
  have n: "?n \<le> length ips" by simp
  have "?n * ?n \<le> length ips * length ips" by (rule mult_le_mono [OF n n])
  also have "\<dots> < 2 ^ 32 * 2 ^ 32"
    using assms by (intro mult_strict_mono') simp_all
  finally have prod: "?n * ?n < 2 ^ 64" by simp
  have cnt: "containsCount (ipnetsOf ips) ips < 2 ^ 64"
    using count_bound_and_eq(1) [of ips] prod by simp
  show ?thesis
    using prod cnt by (simp add: isSameSubnet_def collectNets_eq ipv4Count_def ipnetsOf_def Let_def)
qed

lemma isSameSubnet_Contains:
  assumes "length ips < 2 ^ 32"
  shows "isSameSubnet ips \<longleftrightarrow>
           (\<forall>a\<in>set ips. \<forall>b\<in>set ips. To4 a \<noteq> None \<longrightarrow> To4 b \<noteq> None \<longrightarrow>
              Contains \<lparr>IP = a, Mask = CIDRMask 24 32\<rparr> b)"
  using isSameSubnet_no_wrap [OF assms] count_bound_and_eq(2) [of ips]
  by (auto simp: ipv4Count_def ipnetsOf_def)

lemma isSameSubnet_net24:
  assumes "length ips < 2 ^ 32"
  shows "isSameSubnet ips \<longleftrightarrow>
           (\<forall>a\<in>set ips. \<forall>b\<in>set ips. To4 a \<noteq> None \<longrightarrow> To4 b \<noteq> None \<longrightarrow> net24 b = net24 a)"
  unfolding isSameSubnet_Contains [OF assms]
  using Contains_24_net24 by blast

lemma isSameSubnet_single: "isSameSubnet [ip]"
  by (simp add: isSameSubnet_net24)

lemma isSameSubnet_examples:
  "isSameSubnet []"
  "\<not> isSameSubnet [[10, 0, 0, 1], [10, 0, 1, 1]]"
  "isSameSubnet [[10, 0, 0, 1], [10, 0, 0, 2], [10, 0, 0, 3]]"
  "\<not> isSameSubnet [IPv4 10 0 0 1, IPv4 10 0 1 1]"
  "isSameSubnet [IPv4 10 0 0 1, IPv4 10 0 0 2, IPv4 10 0 0 3]"
  by (simp_all add: isSameSubnet_net24 net24_def To4_def IPv4_def v4InV6Prefix_def)

text \<open>
  C1. For a list of fewer than \<open>2 ^ 32\<close> addresses (beyond that the 64-bit counters of the
  code could wrap), \<open>isSameSubnet\<close> is true exactly when every address of the list with a
  4-byte form lies in the /24 network of every such address; addresses without a 4-byte form
  play no part. It is true for the empty list and for any list of one address, false for
  10.0.0.1, 10.0.1.1 and true for 10.0.0.1, 10.0.0.2, 10.0.0.3, in both byte forms.
\<close>

theorem isSameSubnet_single_24:
  "(length ips < 2 ^ 32 \<longrightarrow>
      (isSameSubnet ips \<longleftrightarrow>
         (\<forall>a\<in>set ips. \<forall>b\<in>set ips. To4 a \<noteq> None \<longrightarrow> To4 b \<noteq> None \<longrightarrow> net24 b = net24 a))) \<and>
   isSameSubnet [] \<and> isSameSubnet [ip] \<and>
   \<not> isSameSubnet [[10, 0, 0, 1], [10, 0, 1, 1]] \<and>
   isSameSubnet [[10, 0, 0, 1], [10, 0, 0, 2], [10, 0, 0, 3]] \<and>
   \<not> isSameSubnet [IPv4 10 0 0 1, IPv4 10 0 1 1] \<and>
   isSameSubnet [IPv4 10 0 0 1, IPv4 10 0 0 2, IPv4 10 0 0 3]"
  using isSameSubnet_net24 [of ips] isSameSubnet_single [of ip] isSameSubnet_examples
  by blast

theorem isSameSubnet_single_24_witness:
  "length [[192, 0, 2, 1], IPv4 192 0 2 77, [0, 1, 2, 3, 4, 5, 6], [192, 0, 2, 200 :: byte]] < 2 ^ 32 \<and>
   isSameSubnet [[192, 0, 2, 1], IPv4 192 0 2 77, [0, 1, 2, 3, 4, 5, 6], [192, 0, 2, 200]]"
proof -
  let ?ips = "[[192, 0, 2, 1], IPv4 192 0 2 77, [0, 1, 2, 3, 4, 5, 6], [192, 0, 2, 200 :: byte]]"
  have len: "length ?ips < 2 ^ 32" by simp
  have "\<forall>a\<in>set ?ips. \<forall>b\<in>set ?ips. To4 a \<noteq> None \<longrightarrow> To4 b \<noteq> None \<longrightarrow> net24 b = net24 a"
    by (simp add: net24_def To4_def IPv4_def v4InV6Prefix_def)
  then have "isSameSubnet ?ips"
    using isSameSubnet_single_24 [of ?ips, THEN conjunct1, rule_format, OF len] by blast
  then show ?thesis using len by blast
qed

section \<open>The parent of a domain\<close>

lemma escScan_count:
  "i \<le> length s \<Longrightarrow>
     escScan s (int i - 1) = int i - 1 - int (length (takeWhile (\<lambda>c. c = backslash) (rev (take i s))))"
proof (induction i)
  case 0
  show ?case by (subst escScan.simps) simp
next
  case (Suc n)
  then have n: "n < length s" by simp
  have IH: "escScan s (int n - 1) = int n - 1 - int (length (takeWhile (\<lambda>c. c = backslash) (rev (take n s))))"
    using Suc by simp
  have tk: "rev (take (Suc n) s) = s ! n # rev (take n s)"
    using n by (simp add: take_Suc_conv_app_nth)
  show ?case
  proof (cases "s ! n = backslash")
    case True
    have "escScan s (int (Suc n) - 1) = escScan s (int n - 1)"
      using True by (subst escScan.simps) simp
    then show ?thesis using IH True tk by simp
  next
    case False
    have "escScan s (int (Suc n) - 1) = int n"
      using False by (subst escScan.simps) simp
    then show ?thesis using False tk by simp
  qed
qed

lemma go_rem_2_zero: "go_rem (- (int k + 1)) 2 = 0 \<longleftrightarrow> odd k"
proof -
  have "go_rem (- (int k + 1)) 2 = - ((int k + 1) mod 2)"
    by (simp add: go_rem_def add.commute)
  then have "go_rem (- (int k + 1)) 2 = 0 \<longleftrightarrow> (int k + 1) mod 2 = 0"
    by simp
  also have "\<dots> \<longleftrightarrow> even (int k + 1)"
    by (simp only: even_iff_mod_2_eq_zero)
  also have "\<dots> \<longleftrightarrow> odd k"
    by simp
  finally show ?thesis .
qed

lemma escaped_test:
  assumes "i \<le> length s"
  shows "go_rem (escScan s (int i - 1) - int i) 2 = 0 \<longleftrightarrow> escapedAt s i"
proof -
  let ?k = "length (takeWhile (\<lambda>c. c = backslash) (rev (take i s)))"
  have "escScan s (int i - 1) - int i = - (int ?k + 1)"
    using escScan_count [OF assms] by simp
  then show ?thesis by (simp only: go_rem_2_zero escapedAt_def)
qed

lemma NextLabel_loop_step:
  "NextLabel_loop s i =
     (if i < length s - 1 then
        (if labelBoundary s i then (i + 1, False) else NextLabel_loop s (i + 1))
      else (i + 1, True))"
proof (cases "i < length s - 1")
  case True
  then have "i \<le> length s" by simp
  then have "go_rem (escScan s (int i - 1) - int i) 2 = 0 \<longleftrightarrow> escapedAt s i"
    by (rule escaped_test)
  moreover have "int i < int (length s) - 1" using True by auto
  ultimately show ?thesis
    using True by (subst NextLabel_loop.simps) (auto simp: labelBoundary_def Let_def)
next
  case False
  then have "\<not> int i < int (length s) - 1" by auto
  then show ?thesis using False by (subst NextLabel_loop.simps) simp
qed

lemma NextLabel_loop_first:
  "NextLabel_loop s i =
     (case filter (labelBoundary s) [i ..< length s - 1] of
        [] \<Rightarrow> (max i (length s - 1) + 1, True)
      | b # _ \<Rightarrow> (b + 1, False))"
proof (induction s i rule: NextLabel_loop.induct)
  case (1 s i)
  show ?case
  proof (cases "i < length s - 1")
    case True
    then have upt: "[i ..< length s - 1] = i # [i + 1 ..< length s - 1]"
      by (simp add: upt_conv_Cons)
    show ?thesis
    proof (cases "labelBoundary s i")
      case b: True
      show ?thesis using True b upt by (subst NextLabel_loop_step) simp
    next
      case b: False
      have c: "int i < int (length s) - 1" using True by auto
      have ih: "NextLabel_loop s (i + 1) =
        (case filter (labelBoundary s) [i + 1 ..< length s - 1] of
           [] \<Rightarrow> (max (i + 1) (length s - 1) + 1, True)
         | b # _ \<Rightarrow> (b + 1, False))"
      proof (cases "s ! i \<noteq> CHR ''.''")
        case True
        then show ?thesis using "1.IH"(1) [OF c] by simp
      next
        case False
        then have dot: "s ! i = CHR ''.''" by simp
        have "escapedAt s i" using b dot by (simp add: labelBoundary_def)
        then have "go_rem (escScan s (int i - 1) - int i) 2 = 0"
          using escaped_test [of i s] True by simp
        then show ?thesis using "1.IH"(2) [OF c _ refl] dot by simp
      qed
      have mx: "max (i + 1) (length s - 1) = max i (length s - 1)" using True by simp
      show ?thesis using True b upt ih mx by (subst NextLabel_loop_step) (simp split: list.splits)
    qed
  next
    case False
    then show ?thesis by (subst NextLabel_loop_step) (simp add: max_def)
  qed
qed

lemma getParentDomain_parentOf: "getParentDomain s = parentOf s"
proof (cases "s = []")
  case True
  then show ?thesis by (simp add: getParentDomain_def NextLabel_def parentOf_def)
next
  case False
  then show ?thesis
    by (simp add: getParentDomain_def NextLabel_def parentOf_def NextLabel_loop_first split: list.splits)
qed


lemma parentOf_plain_label:
  assumes "CHR ''.'' \<notin> set l" "backslash \<notin> set l" "rest \<noteq> []"
  shows "parentOf (l @ ''.'' @ rest) = rest"
proof -
  let ?s = "l @ ''.'' @ rest"
  obtain m where m: "length rest = Suc m" using assms(3) by (cases rest) simp_all
  have n: "length ?s - 1 = length l + Suc m" using m by simp
  have "[0 ..< length l + Suc m] = [0 ..< length l] @ [length l ..< length l + Suc m]"
    by (rule upt_add_eq_append) simp
  also have "[length l ..< length l + Suc m] = length l # [length l + 1 ..< length l + Suc m]"
    by (simp add: upt_conv_Cons)
  finally have split:
    "[0 ..< length ?s - 1] = [0 ..< length l] @ length l # [length l + 1 ..< length l + Suc m]"
    unfolding n .
  have nodot: "l ! i \<noteq> CHR ''.''" if "i < length l" for i
    using assms(1) nth_mem [OF that] by auto
  have before: "filter (labelBoundary ?s) [0 ..< length l] = []"
    using nodot by (auto simp: filter_empty_conv labelBoundary_def nth_append)
  have "takeWhile (\<lambda>c. c = backslash) (rev l) = []"
  proof (cases "rev l")
    case Nil
    then show ?thesis by simp
  next
    case (Cons a as)
    then have "a \<in> set (rev l)" by simp
    then have "a \<noteq> backslash" using assms(2) by auto
    then show ?thesis using Cons by simp
  qed
  then have at: "labelBoundary ?s (length l)"
    by (simp add: labelBoundary_def escapedAt_def)
  have "filter (labelBoundary ?s) [0 ..< length ?s - 1] =
          length l # filter (labelBoundary ?s) [length l + 1 ..< length l + Suc m]"
    unfolding split filter_append before using at by simp
  then show ?thesis
    unfolding parentOf_def by simp
qed

lemma parentOf_no_dot:
  assumes "CHR ''.'' \<notin> set (butlast s)"
  shows "parentOf s = ''.''"
proof -
  have "filter (labelBoundary s) [0 ..< length s - 1] = []"
  proof -
    have "s ! i \<noteq> CHR ''.''" if "i < length s - 1" for i
    proof -
      have "butlast s ! i \<in> set (butlast s)" using that by simp
      then show ?thesis using assms that by (auto simp: nth_butlast)
    qed
    then show ?thesis by (auto simp: filter_empty_conv labelBoundary_def)
  qed
  then show ?thesis by (simp add: parentOf_def)
qed

lemma getParentDomain_examples:
  "getParentDomain ''www.example.com.'' = ''example.com.''"
  "getParentDomain ''.'' = ''.''"
  using parentOf_plain_label [of "''www''" "''example.com.''"] parentOf_no_dot [of "''.''"]
  by (simp_all add: getParentDomain_parentOf backslash_def)

text \<open>
  C8. \<open>getParentDomain\<close> returns what follows the end of the leftmost label and the root when
  nothing does: it is the reference function \<open>parentOf\<close>. In particular, a label without dot
  or backslash in front of a dot and a non-empty rest is stripped, a string with no dot
  before its last byte gives the root, the parent of \<open>www.example.com.\<close> is \<open>example.com.\<close>
  and the parent of the root is the root.
\<close>

theorem getParentDomain_strips_leftmost_label:
  "getParentDomain s = parentOf s \<and>
   (CHR ''.'' \<notin> set l \<and> backslash \<notin> set l \<and> rest \<noteq> [] \<longrightarrow>
      getParentDomain (l @ ''.'' @ rest) = rest) \<and>
   (CHR ''.'' \<notin> set (butlast s) \<longrightarrow> getParentDomain s = ''.'') \<and>
   getParentDomain ''www.example.com.'' = ''example.com.'' \<and>
   getParentDomain ''.'' = ''.''"
  using getParentDomain_parentOf [of s] getParentDomain_parentOf [of "l @ ''.'' @ rest"]
    parentOf_plain_label [of l rest] parentOf_no_dot [of s] getParentDomain_examples
  by simp

theorem getParentDomain_strips_leftmost_label_witness:
  "CHR ''.'' \<notin> set ''mail'' \<and> backslash \<notin> set ''mail'' \<and> ''example.org.'' \<noteq> [] \<and>
   getParentDomain (''mail'' @ ''.'' @ ''example.org.'') = ''example.org.'' \<and>
   CHR ''.'' \<notin> set (butlast ''org.'') \<and> getParentDomain ''org.'' = ''.''"
proof -
  have a: "CHR ''.'' \<notin> set ''mail'' \<and> backslash \<notin> set ''mail'' \<and> ''example.org.'' \<noteq> []"
    by (simp add: backslash_def)
  have b: "CHR ''.'' \<notin> set (butlast ''org.'')"
    by simp
  have "getParentDomain (''mail'' @ ''.'' @ ''example.org.'') = ''example.org.''"
    using getParentDomain_strips_leftmost_label [of _ "''mail''" "''example.org.''",
        THEN conjunct2, THEN conjunct1, rule_format, OF a] .
  moreover have "getParentDomain ''org.'' = ''.''"
    using getParentDomain_strips_leftmost_label [of "''org.''",
        THEN conjunct2, THEN conjunct2, THEN conjunct1, rule_format, OF b] .
  ultimately show ?thesis using a b by blast
qed

section \<open>Filtering records by type\<close>

lemma qtypeMap_acc:
  "foldl (\<lambda>m qtype. m(qtype \<mapsto> True)) m0 qtypes q \<noteq> None \<longleftrightarrow> m0 q \<noteq> None \<or> q \<in> set qtypes"
  by (induction qtypes arbitrary: m0) auto

lemma qtypeMap_dom: "qtypeMap qtypes q \<noteq> None \<longleftrightarrow> q \<in> set qtypes"
  using qtypeMap_acc [of Map.empty qtypes q] by (simp add: qtypeMap_def)

lemma append_loop_filter:
  "foldl (\<lambda>out x. if P x then out @ [x] else out) acc xs = acc @ filter P xs"
  by (induction xs arbitrary: acc) auto

lemma extractRR_filter:
  "extractRR rrset qtypes = filter (\<lambda>rr. Rrtype (Header rr) \<in> set qtypes) rrset"
  using qtypeMap_dom [of qtypes] by (simp add: extractRR_def Let_def append_loop_filter)

text \<open>
  C6. \<open>extractRR\<close> returns the records of the input whose type is one of the requested types,
  in the order of the input: the result is a subsequence of the input, every record of the
  result has a requested type, and every record of the input with a requested type is in the
  result. The model is a function of its two arguments, which is all that a shallow embedding
  says about the absence of effects.
\<close>

theorem extractRR_subsequence:
  "extractRR rrset qtypes = filter (\<lambda>rr. Rrtype (Header rr) \<in> set qtypes) rrset \<and>
   subseq (extractRR rrset qtypes) rrset \<and>
   (\<forall>rr \<in> set (extractRR rrset qtypes). Rrtype (Header rr) \<in> set qtypes) \<and>
   (\<forall>rr \<in> set rrset. Rrtype (Header rr) \<in> set qtypes \<longrightarrow> rr \<in> set (extractRR rrset qtypes))"
  by (simp add: extractRR_filter)

theorem extractRR_subsequence_witness:
  "NS \<lparr>Name = ''example.com.'', Rrtype = TypeNS, Class = ClassINET, Ttl = 300, Rdlength = 6\<rparr> ''ns1.example.com.''
     \<in> set [A \<lparr>Name = ''ns1.example.com.'', Rrtype = TypeA, Class = ClassINET, Ttl = 300, Rdlength = 4\<rparr> [192, 0, 2, 1],
             NS \<lparr>Name = ''example.com.'', Rrtype = TypeNS, Class = ClassINET, Ttl = 300, Rdlength = 6\<rparr> ''ns1.example.com.''] \<and>
   Rrtype (Header (NS \<lparr>Name = ''example.com.'', Rrtype = TypeNS, Class = ClassINET, Ttl = 300, Rdlength = 6\<rparr> ''ns1.example.com.''))
     \<in> set [TypeNS] \<and>
   NS \<lparr>Name = ''example.com.'', Rrtype = TypeNS, Class = ClassINET, Ttl = 300, Rdlength = 6\<rparr> ''ns1.example.com.''
     \<in> set (extractRR
          [A \<lparr>Name = ''ns1.example.com.'', Rrtype = TypeA, Class = ClassINET, Ttl = 300, Rdlength = 4\<rparr> [192, 0, 2, 1],
           NS \<lparr>Name = ''example.com.'', Rrtype = TypeNS, Class = ClassINET, Ttl = 300, Rdlength = 6\<rparr> ''ns1.example.com.'']
          [TypeNS])"
proof -
  let ?ns = "NS \<lparr>Name = ''example.com.'', Rrtype = TypeNS, Class = ClassINET, Ttl = 300, Rdlength = 6\<rparr> ''ns1.example.com.''"
  let ?rrset = "[A \<lparr>Name = ''ns1.example.com.'', Rrtype = TypeA, Class = ClassINET, Ttl = 300, Rdlength = 4\<rparr> [192, 0, 2, 1], ?ns]"
  have a: "?ns \<in> set ?rrset" by simp
  have b: "Rrtype (Header ?ns) \<in> set [TypeNS]" by simp
  have "?ns \<in> set (extractRR ?rrset [TypeNS])"
    using extractRR_subsequence [of ?rrset "[TypeNS]", THEN conjunct2, THEN conjunct2, THEN conjunct2,
        rule_format, OF a b] .
  then show ?thesis using a b by blast
qed

section \<open>The scan error classifier\<close>

lemma scanerror_Some:
  "scanerror r check ns ip domain results (Some e) =
     (True,
      if \<not> strings_Contains e ''NXDOMAIN'' \<and> \<not> strings_Contains e ''no rr for''
      then r\<lparr>Report_Result := Report_Result r @
              [\<lparr>Result = ''ERR : '' @ check @ '' failed on '' @ ns @ '' ('' @ ip @ ''): '' @ e\<rparr>]\<rparr>
      else r)"
  by (simp add: scanerror_def)

lemma line_parts:
  "strings_Contains (''ERR : '' @ check @ '' failed on '' @ ns @ '' ('' @ ip @ ''): '' @ e) check"
  "strings_Contains (''ERR : '' @ check @ '' failed on '' @ ns @ '' ('' @ ip @ ''): '' @ e) ns"
  "strings_Contains (''ERR : '' @ check @ '' failed on '' @ ns @ '' ('' @ ip @ ''): '' @ e) ip"
  "strings_Contains (''ERR : '' @ check @ '' failed on '' @ ns @ '' ('' @ ip @ ''): '' @ e) e"
  unfolding strings_Contains_def
  subgoal by (rule sublist_appendI)
  subgoal using sublist_appendI [of ns "''ERR : '' @ check @ '' failed on ''" "'' ('' @ ip @ ''): '' @ e"] by simp
  subgoal using sublist_appendI [of ip "''ERR : '' @ check @ '' failed on '' @ ns @ '' (''" "''): '' @ e"] by simp
  subgoal using sublist_appendI [of e "''ERR : '' @ check @ '' failed on '' @ ns @ '' ('' @ ip @ ''): ''" "[]"] by simp
  done

text \<open>
  C9. With a nil error and no record, \<open>scanerror\<close> returns true and leaves the report as it was.
\<close>

theorem scanerror_nil_error_no_records:
  "scanerror r check ns ip domain [] None = (True, r)"
  by (simp add: scanerror_def)

text \<open>
  C2 as stated fails: for a transport error the appended line names the check, the server and
  the address, and not the domain.
\<close>

theorem scanerror_domain_counterexample:
  "fst (scanerror \<lparr>Report_Result = []\<rparr> ''NS'' ''ns1.example.net.'' ''192.0.2.1'' ''example.org'' []
         (Some ''i/o timeout'')) \<and>
   map Result (Report_Result (snd (scanerror \<lparr>Report_Result = []\<rparr> ''NS'' ''ns1.example.net.''
         ''192.0.2.1'' ''example.org'' [] (Some ''i/o timeout'')))) =
     [''ERR : NS failed on ns1.example.net. (192.0.2.1): i/o timeout''] \<and>
   \<not> strings_Contains ''ERR : NS failed on ns1.example.net. (192.0.2.1): i/o timeout'' ''example.org''"
  by code_simp

text \<open>
  C2, amended. With a non-nil error \<open>scanerror\<close> returns true. When the message of the error
  contains \<open>NXDOMAIN\<close> or \<open>no rr for\<close> the report is unchanged; otherwise exactly one finding is
  appended, the line made of the check name, the server, the address and the message of the
  error, each of which it contains. The domain is not part of the line.
\<close>

theorem scanerror_error_finding:
  "fst (scanerror r check ns ip domain results (Some e)) = True \<and>
   (strings_Contains e ''NXDOMAIN'' \<or> strings_Contains e ''no rr for'' \<longrightarrow>
      snd (scanerror r check ns ip domain results (Some e)) = r) \<and>
   (\<not> strings_Contains e ''NXDOMAIN'' \<and> \<not> strings_Contains e ''no rr for'' \<longrightarrow>
      Report_Result (snd (scanerror r check ns ip domain results (Some e))) =
        Report_Result r @
          [\<lparr>Result = ''ERR : '' @ check @ '' failed on '' @ ns @ '' ('' @ ip @ ''): '' @ e\<rparr>] \<and>
      strings_Contains (''ERR : '' @ check @ '' failed on '' @ ns @ '' ('' @ ip @ ''): '' @ e) check \<and>
      strings_Contains (''ERR : '' @ check @ '' failed on '' @ ns @ '' ('' @ ip @ ''): '' @ e) ns \<and>
      strings_Contains (''ERR : '' @ check @ '' failed on '' @ ns @ '' ('' @ ip @ ''): '' @ e) ip \<and>
      strings_Contains (''ERR : '' @ check @ '' failed on '' @ ns @ '' ('' @ ip @ ''): '' @ e) e)"
  using line_parts [of check ns ip e]
  by (simp add: scanerror_Some)

theorem scanerror_error_finding_witness:
  "strings_Contains ''failure: NXDOMAIN'' ''NXDOMAIN'' \<and>
   snd (scanerror \<lparr>Report_Result = []\<rparr> ''SOA'' ''ns1.example.net.'' ''192.0.2.1'' ''example.org'' []
          (Some ''failure: NXDOMAIN'')) = \<lparr>Report_Result = []\<rparr> \<and>
   \<not> strings_Contains ''i/o timeout'' ''NXDOMAIN'' \<and> \<not> strings_Contains ''i/o timeout'' ''no rr for'' \<and>
   Report_Result (snd (scanerror \<lparr>Report_Result = []\<rparr> ''SOA'' ''ns1.example.net.'' ''192.0.2.1''
          ''example.org'' [] (Some ''i/o timeout''))) =
     [\<lparr>Result = ''ERR : SOA failed on ns1.example.net. (192.0.2.1): i/o timeout''\<rparr>]"
proof -
  have a: "strings_Contains ''failure: NXDOMAIN'' ''NXDOMAIN'' \<or>
           strings_Contains ''failure: NXDOMAIN'' ''no rr for''"
    and a': "strings_Contains ''failure: NXDOMAIN'' ''NXDOMAIN''"
    by code_simp+
  have b: "\<not> strings_Contains ''i/o timeout'' ''NXDOMAIN'' \<and> \<not> strings_Contains ''i/o timeout'' ''no rr for''"
    by code_simp
  have "snd (scanerror \<lparr>Report_Result = []\<rparr> ''SOA'' ''ns1.example.net.'' ''192.0.2.1'' ''example.org'' []
          (Some ''failure: NXDOMAIN'')) = \<lparr>Report_Result = []\<rparr>"
    using scanerror_error_finding [of "\<lparr>Report_Result = []\<rparr>" "''SOA''" "''ns1.example.net.''"
        "''192.0.2.1''" "''example.org''" "[]" "''failure: NXDOMAIN''",
        THEN conjunct2, THEN conjunct1, rule_format, OF a] .
  moreover have "Report_Result (snd (scanerror \<lparr>Report_Result = []\<rparr> ''SOA'' ''ns1.example.net.''
          ''192.0.2.1'' ''example.org'' [] (Some ''i/o timeout''))) =
     [\<lparr>Result = ''ERR : SOA failed on ns1.example.net. (192.0.2.1): i/o timeout''\<rparr>]"
    using scanerror_error_finding [of "\<lparr>Report_Result = []\<rparr>" "''SOA''" "''ns1.example.net.''"
        "''192.0.2.1''" "''example.org''" "[]" "''i/o timeout''",
        THEN conjunct2, THEN conjunct2, rule_format, OF b, THEN conjunct1] by simp
  ultimately show ?thesis using a' b by blast
qed

section \<open>Queries\<close>

lemma query_exchange:
  assumes "queryMsg env q qtype sec w = (m, w1)"
    and "Exchange env m (JoinHostPort server ''53'') w1 = (r, w2)"
  shows "query env q qtype server sec w =
           (case r of
              Inl err \<Rightarrow> (Inl err, w2)
            | Inr (in_msg, rtt) \<Rightarrow>
                if Rcode in_msg \<noteq> 0 then (Inl (''failure: '' @ RcodeToString (Rcode in_msg)), w2)
                else (Inr \<lparr>Resp_Msg = in_msg, Server = server, Rtt = rtt\<rparr>, w2))"
  using assms by (simp add: query_def)

lemma queryRRset_exchange:
  assumes "queryMsg env q qtype sec w = (m, w1)"
    and "Exchange env m (JoinHostPort server ''53'') w1 = (r, w2)"
  shows "queryRRset env q qtype server sec w =
           (case r of
              Inl err \<Rightarrow> (Inl err, w2)
            | Inr (in_msg, rtt) \<Rightarrow>
                if Rcode in_msg \<noteq> 0 then (Inl (''failure: '' @ RcodeToString (Rcode in_msg)), w2)
                else if filter (\<lambda>rr. Rrtype (Header rr) = qtype) (Answer in_msg) = []
                then (Inl (''no rr for '' @ fmtSharpV qtype), w2)
                else (Inr (filter (\<lambda>rr. Rrtype (Header rr) = qtype) (Answer in_msg), rtt), w2))"
  unfolding queryRRset_def query_exchange [OF assms]
  by (simp add: extractRR_filter Let_def split: sum.splits)

lemma queryRRset_Inr:
  assumes "queryRRset env q qtype server sec w = (Inr (rrset, rtt), w')"
  shows "rrset \<noteq> []"
    and "\<exists>m a w1 in_msg. Exchange env m a w1 = (Inr (in_msg, rtt), w') \<and> Rcode in_msg = 0 \<and>
           rrset = filter (\<lambda>rr. Rrtype (Header rr) = qtype) (Answer in_msg)"
proof -
  obtain m w1 where m: "queryMsg env q qtype sec w = (m, w1)" by (cases "queryMsg env q qtype sec w")
  obtain r w2 where r: "Exchange env m (JoinHostPort server ''53'') w1 = (r, w2)"
    by (cases "Exchange env m (JoinHostPort server ''53'') w1")
  have eq: "(case r of
              Inl err \<Rightarrow> (Inl err, w2)
            | Inr (in_msg, rtt) \<Rightarrow>
                if Rcode in_msg \<noteq> 0 then (Inl (''failure: '' @ RcodeToString (Rcode in_msg)), w2)
                else if filter (\<lambda>rr. Rrtype (Header rr) = qtype) (Answer in_msg) = []
                then (Inl (''no rr for '' @ fmtSharpV qtype), w2)
                else (Inr (filter (\<lambda>rr. Rrtype (Header rr) = qtype) (Answer in_msg), rtt), w2))
            = (Inr (rrset, rtt), w')"
    using queryRRset_exchange [OF m r] assms by simp
  then obtain in_msg where i: "r = Inr (in_msg, rtt)" "Rcode in_msg = 0" "w2 = w'"
      "rrset = filter (\<lambda>rr. Rrtype (Header rr) = qtype) (Answer in_msg)" "rrset \<noteq> []"
    by (auto split: sum.splits if_splits)
  show "rrset \<noteq> []" by (rule i(5))
  show "\<exists>m a w1 in_msg. Exchange env m a w1 = (Inr (in_msg, rtt), w') \<and> Rcode in_msg = 0 \<and>
           rrset = filter (\<lambda>rr. Rrtype (Header rr) = qtype) (Answer in_msg)"
    using r i by blast
qed

lemma queryRRset_Inr_typed:
  assumes "queryRRset env q qtype server sec w = (Inr (rrset, rtt), w')"
  shows "list_all (\<lambda>rr. Rrtype (Header rr) = qtype) rrset"
  using queryRRset_Inr(2) [OF assms] by (auto simp: list_all_iff)

lemma queryRRset_Inr_wellTyped:
  assumes "wellTypedEnv env" "queryRRset env q qtype server sec w = (Inr (rrset, rtt), w')"
  shows "list_all wellTyped rrset"
proof -
  obtain m a w1 in_msg where "Exchange env m a w1 = (Inr (in_msg, rtt), w')"
    "rrset = filter (\<lambda>rr. Rrtype (Header rr) = qtype) (Answer in_msg)"
    using queryRRset_Inr(2) [OF assms(2)] by blast
  moreover from this have "list_all wellTyped (Answer in_msg)"
    using assms(1) unfolding wellTypedEnv_def by blast
  ultimately show ?thesis by (auto simp: list_all_iff)
qed

lemma wellTyped_NS: "wellTyped rr \<Longrightarrow> Rrtype (Header rr) = TypeNS \<Longrightarrow> \<exists>h ns. rr = NS h ns"
  by (cases rr) (auto simp: wellTyped_def TypeA_def TypeNS_def TypeAAAA_def TypeOPT_def)

lemma wellTyped_A: "wellTyped rr \<Longrightarrow> Rrtype (Header rr) = TypeA \<Longrightarrow> isA rr"
  by (cases rr) (auto simp: wellTyped_def TypeA_def TypeNS_def TypeAAAA_def TypeOPT_def)

lemma wellTyped_AAAA: "wellTyped rr \<Longrightarrow> Rrtype (Header rr) = TypeAAAA \<Longrightarrow> isAAAA rr"
  by (cases rr) (auto simp: wellTyped_def TypeA_def TypeNS_def TypeAAAA_def TypeOPT_def)

section \<open>Nameserver discovery\<close>

lemma nsinfos_loop:
  "foldl (\<lambda>nsinfos ip. nsinfos @ [f ip]) acc ips = acc @ map f ips"
  by (induction ips arbitrary: acc) auto

lemma getIP_cases:
  "getIP env host qtype server w =
     (case queryRRset env host qtype server False w of
        (Inl err, w') \<Rightarrow> ([], w')
      | (Inr (rrset, rtt), w') \<Rightarrow> (extractIP rrset, w'))"
  by (simp add: getIP_def)

lemma getIP_lookedUp:
  "\<exists>rs. fst (getIP env host qtype (resolver env) w) = extractIP rs \<and> lookedUp env host qtype rs"
proof (cases "queryRRset env host qtype (resolver env) False w")
  case (Pair r w')
  show ?thesis
  proof (cases r)
    case (Inl e)
    then have "fst (getIP env host qtype (resolver env) w) = extractIP []"
      using Pair by (simp add: getIP_def)
    moreover have "lookedUp env host qtype []" by (simp add: lookedUp_def)
    ultimately show ?thesis by blast
  next
    case (Inr p)
    obtain rrset rtt where p: "p = (rrset, rtt)" by (cases p)
    have "fst (getIP env host qtype (resolver env) w) = extractIP rrset"
      using Pair Inr p by (simp add: getIP_def)
    moreover have "lookedUp env host qtype rrset"
      using Pair Inr p unfolding lookedUp_def by blast
    ultimately show ?thesis by blast
  qed
qed

lemma getIP_noAddress:
  assumes "noAddress env host"
  shows "fst (getIP env host TypeA (resolver env) w) = []"
    and "fst (getIP env host TypeAAAA (resolver env) w) = []"
proof -
  obtain e w' where "queryRRset env host TypeA (resolver env) False w = (Inl e, w')"
    using assms unfolding noAddress_def by blast
  then show "fst (getIP env host TypeA (resolver env) w) = []"
    by (simp add: getIP_def)
  obtain e w' where "queryRRset env host TypeAAAA (resolver env) False w = (Inl e, w')"
    using assms unfolding noAddress_def by blast
  then show "fst (getIP env host TypeAAAA (resolver env) w) = []"
    by (simp add: getIP_def)
qed

lemma findNS_body_NS:
  "findNS_body env (NS h ns) nsdatas w =
     Some (nsdatas @
             [\<lparr>NSData_Name = ns,
               NSData_IP = fst (getIP env ns TypeA (resolver env) w) @
                           fst (getIP env ns TypeAAAA (resolver env)
                                  (snd (getIP env ns TypeA (resolver env) w))),
               NSData_Info = map (nsinfoOf ns)
                               (fst (getIP env ns TypeA (resolver env) w) @
                                fst (getIP env ns TypeAAAA (resolver env)
                                       (snd (getIP env ns TypeA (resolver env) w))))\<rparr>],
           snd (getIP env ns TypeAAAA (resolver env) (snd (getIP env ns TypeA (resolver env) w))))"
  by (simp add: findNS_body_def Let_def split_beta nsinfos_loop nsinfoOf_def)

lemma findNS_body_discovered:
  assumes "findNS_body env rr nsdatas w = Some (nsdatas', w')"
  shows "\<exists>d. nsdatas' = nsdatas @ [d] \<and> discovered env rr d"
proof -
  obtain h ns where rr: "rr = NS h ns"
    using assms by (cases rr) (simp_all add: findNS_body_def)
  let ?a = "getIP env ns TypeA (resolver env) w"
  let ?b = "getIP env ns TypeAAAA (resolver env) (snd ?a)"
  let ?d = "\<lparr>NSData_Name = ns, NSData_IP = fst ?a @ fst ?b,
             NSData_Info = map (nsinfoOf ns) (fst ?a @ fst ?b)\<rparr>"
  have eq: "nsdatas' = nsdatas @ [?d]"
    using assms unfolding rr findNS_body_NS by simp
  obtain rsA where rsA: "fst ?a = extractIP rsA" "lookedUp env ns TypeA rsA"
    using getIP_lookedUp [of env ns TypeA w] by blast
  obtain rsAAAA where rsAAAA: "fst ?b = extractIP rsAAAA" "lookedUp env ns TypeAAAA rsAAAA"
    using getIP_lookedUp [of env ns TypeAAAA "snd ?a"] by blast
  have none: "noAddress env ns \<longrightarrow> fst ?a @ fst ?b = []"
    using getIP_noAddress [of env ns] by simp
  have "discovered env rr ?d"
    unfolding discovered_def rr using rsA rsAAAA none by auto
  then show ?thesis using eq by blast
qed

lemma findNS_loop_discovered:
  "findNS_loop env rrset nsdatas w = Some (nsdatas', w') \<Longrightarrow>
     \<exists>ds. nsdatas' = nsdatas @ ds \<and> list_all2 (discovered env) rrset ds"
proof (induction rrset arbitrary: nsdatas w)
  case Nil
  then show ?case by simp
next
  case (Cons rr rrset)
  from Cons.prems obtain n1 w1 where
    b: "findNS_body env rr nsdatas w = Some (n1, w1)" and
    l: "findNS_loop env rrset n1 w1 = Some (nsdatas', w')"
    by (auto split: option.splits)
  obtain d where d: "n1 = nsdatas @ [d]" "discovered env rr d"
    using findNS_body_discovered [OF b] by blast
  obtain ds where ds: "nsdatas' = n1 @ ds" "list_all2 (discovered env) rrset ds"
    using Cons.IH [OF l] by blast
  have "nsdatas' = nsdatas @ (d # ds)" using d(1) ds(1) by simp
  moreover have "list_all2 (discovered env) (rr # rrset) (d # ds)" using d(2) ds(2) by simp
  ultimately show ?case by blast
qed

lemma findNS_loop_total:
  "list_all (\<lambda>rr. \<exists>h ns. rr = NS h ns) rrset \<Longrightarrow> findNS_loop env rrset nsdatas w \<noteq> None"
proof (induction rrset arbitrary: nsdatas w)
  case Nil
  show ?case by simp
next
  case (Cons rr rrset)
  then obtain h ns where rr: "rr = NS h ns" by auto
  have rest: "list_all (\<lambda>rr. \<exists>h ns. rr = NS h ns) rrset" using Cons.prems by simp
  show ?case
    unfolding rr findNS_loop.simps findNS_body_NS
    using Cons.IH [OF rest] by simp
qed

lemma NS_lookup_all_NS:
  assumes "wellTypedEnv env" "queryRRset env q TypeNS server sec w = (Inr (rrset, rtt), w')"
  shows "list_all (\<lambda>rr. \<exists>h ns. rr = NS h ns) rrset"
  using queryRRset_Inr_wellTyped [OF assms] queryRRset_Inr_typed [OF assms(2)] wellTyped_NS
  by (auto simp: list_all_iff)

lemma lookedUp_A:
  assumes "wellTypedEnv env" "lookedUp env host TypeA rs"
  shows "list_all isA rs"
  using assms(2) unfolding lookedUp_def
proof
  assume "rs = []" then show ?thesis by simp
next
  assume "\<exists>w rtt w'. queryRRset env host TypeA (resolver env) False w = (Inr (rs, rtt), w')"
  then obtain w rtt w' where q: "queryRRset env host TypeA (resolver env) False w = (Inr (rs, rtt), w')"
    by blast
  show ?thesis
    using queryRRset_Inr_wellTyped [OF assms(1) q] queryRRset_Inr_typed [OF q] wellTyped_A
    by (auto simp: list_all_iff)
qed

lemma lookedUp_AAAA:
  assumes "wellTypedEnv env" "lookedUp env host TypeAAAA rs"
  shows "list_all isAAAA rs"
  using assms(2) unfolding lookedUp_def
proof
  assume "rs = []" then show ?thesis by simp
next
  assume "\<exists>w rtt w'. queryRRset env host TypeAAAA (resolver env) False w = (Inr (rs, rtt), w')"
  then obtain w rtt w' where q: "queryRRset env host TypeAAAA (resolver env) False w = (Inr (rs, rtt), w')"
    by blast
  show ?thesis
    using queryRRset_Inr_wellTyped [OF assms(1) q] queryRRset_Inr_typed [OF q] wellTyped_AAAA
    by (auto simp: list_all_iff)
qed

lemma extractIP_A: "list_all isA rs \<Longrightarrow> extractIP rs = map addrOf rs"
  by (induction rs rule: extractIP.induct) auto

lemma extractIP_AAAA: "list_all isAAAA rs \<Longrightarrow> extractIP rs = map addrOf rs"
  by (induction rs rule: extractIP.induct) auto

lemma findNS_cases:
  "findNS env domain w =
     (case queryRRset env domain TypeNS (resolver env) False w of
        (Inl err, w1) \<Rightarrow> Some (Inl err, w1)
      | (Inr (rrset, rtt), w1) \<Rightarrow>
          (case findNS_loop env rrset [] w1 of
             None \<Rightarrow> None
           | Some (nsdatas, w2) \<Rightarrow>
               if length nsdatas = 0 then Some (Inl ''no NS found'', w2)
               else Some (Inr nsdatas, w2)))"
  by (simp add: findNS_def)

lemma findNS_Inr_loop:
  assumes "queryRRset env domain TypeNS (resolver env) False w = (Inr (rrset, rtt), w1)"
    and "findNS env domain w = Some (Inr nsdatas, w2)"
  shows "findNS_loop env rrset [] w1 = Some (nsdatas, w2)"
  using assms by (auto simp: findNS_def split: option.splits if_splits)

lemma findNS_after_NS_lookup:
  assumes "queryRRset env domain TypeNS (resolver env) False w = (Inr (rrset, rtt), w1)"
  shows "rrset \<noteq> []"
    and "findNS_loop env rrset [] w1 = Some (nsdatas, w2) \<Longrightarrow>
           length nsdatas = length rrset \<and> length nsdatas \<noteq> 0 \<and>
           findNS env domain w = Some (Inr nsdatas, w2)"
    and "findNS_loop env rrset [] w1 = None \<Longrightarrow> findNS env domain w = None"
proof -
  show ne: "rrset \<noteq> []" using queryRRset_Inr(1) [OF assms] .
  show "length nsdatas = length rrset \<and> length nsdatas \<noteq> 0 \<and>
        findNS env domain w = Some (Inr nsdatas, w2)"
    if l: "findNS_loop env rrset [] w1 = Some (nsdatas, w2)"
  proof -
    obtain ds where ds: "nsdatas = [] @ ds" "list_all2 (discovered env) rrset ds"
      using findNS_loop_discovered [OF l] by blast
    then have len: "length nsdatas = length rrset"
      by (simp add: list_all2_lengthD)
    then have nz: "length nsdatas \<noteq> 0" using ne by simp
    have "findNS env domain w = Some (Inr nsdatas, w2)"
      using assms l nz by (simp add: findNS_def)
    then show ?thesis using len nz by blast
  qed
  show "findNS env domain w = None" if "findNS_loop env rrset [] w1 = None"
    using assms that by (simp add: findNS_def)
qed

lemma length_lookupStates: "length (lookupStates env rrset w) = length rrset"
  by (induction env rrset w rule: lookupStates.induct) simp_all

lemma findNS_body_built:
  assumes "findNS_body env rr nsdatas w = Some (nsdatas', w')"
  shows "\<exists>h ns d. rr = NS h ns \<and> nsdatas' = nsdatas @ [d] \<and> builtAt env rr w d \<and>
           w' = afterLookups env ns w"
proof -
  obtain h ns where rr: "rr = NS h ns"
    using assms by (cases rr) (simp_all add: findNS_body_def)
  let ?a = "getIP env ns TypeA (resolver env) w"
  let ?b = "getIP env ns TypeAAAA (resolver env) (snd ?a)"
  let ?d = "\<lparr>NSData_Name = ns, NSData_IP = fst ?a @ fst ?b,
             NSData_Info = map (nsinfoOf ns) (fst ?a @ fst ?b)\<rparr>"
  have "nsdatas' = nsdatas @ [?d]" and "w' = afterLookups env ns w"
    using assms unfolding rr findNS_body_NS afterLookups_def by simp_all
  moreover have "builtAt env rr w ?d"
    unfolding builtAt_def rr by simp
  ultimately show ?thesis using rr by blast
qed

lemma findNS_loop_run:
  "findNS_loop env rrset nsdatas w = Some (nsdatas', w') \<Longrightarrow>
     \<exists>ds. nsdatas' = nsdatas @ ds \<and>
          list_all2 (\<lambda>(rr, wa) d. builtAt env rr wa d) (zip rrset (lookupStates env rrset w)) ds"
proof (induction rrset arbitrary: nsdatas w)
  case Nil
  then show ?case by simp
next
  case (Cons rr rrset)
  from Cons.prems obtain n1 w1 where
    b: "findNS_body env rr nsdatas w = Some (n1, w1)" and
    l: "findNS_loop env rrset n1 w1 = Some (nsdatas', w')"
    by (auto split: option.splits)
  obtain h ns d where d: "rr = NS h ns" "n1 = nsdatas @ [d]" "builtAt env rr w d"
      "w1 = afterLookups env ns w"
    using findNS_body_built [OF b] by blast
  obtain ds where ds: "nsdatas' = n1 @ ds"
      "list_all2 (\<lambda>(rr, wa) d. builtAt env rr wa d) (zip rrset (lookupStates env rrset w1)) ds"
    using Cons.IH [OF l] by blast
  have "nsdatas' = nsdatas @ (d # ds)" using d(2) ds(1) by simp
  moreover have "list_all2 (\<lambda>(rr, wa) d. builtAt env rr wa d)
                   (zip (rr # rrset) (lookupStates env (rr # rrset) w)) (d # ds)"
    using d(1,3,4) ds(2) by simp
  ultimately show ?case by blast
qed

lemma findNS_loop_run_nth:
  assumes "findNS_loop env rrset [] w = Some (nsdatas, w')" and "i < length rrset"
  shows "builtAt env (rrset ! i) (lookupStates env rrset w ! i) (nsdatas ! i)"
proof -
  have l2: "list_all2 (\<lambda>(rr, wa) d. builtAt env rr wa d) (zip rrset (lookupStates env rrset w)) nsdatas"
    using findNS_loop_run [OF assms(1)] by simp
  have len: "i < length (zip rrset (lookupStates env rrset w))"
    using assms(2) by (simp add: length_lookupStates)
  have "(\<lambda>(rr, wa) d. builtAt env rr wa d) (zip rrset (lookupStates env rrset w) ! i) (nsdatas ! i)"
    using list_all2_nthD [OF l2 len] .
  then show ?thesis using assms(2) by (simp add: length_lookupStates)
qed

lemma lookupsFail_empty:
  assumes "builtAt env rr w d" "lookupsFail env (NSData_Name d) w"
  shows "NSData_IP d = [] \<and> NSData_Info d = []"
proof -
  obtain h ns where b: "rr = NS h ns" "NSData_Name d = ns"
    "NSData_IP d = fst (getIP env ns TypeA (resolver env) w) @
        fst (getIP env ns TypeAAAA (resolver env) (snd (getIP env ns TypeA (resolver env) w)))"
    "NSData_Info d = map (nsinfoOf ns) (NSData_IP d)"
    using assms(1) unfolding builtAt_def by blast
  obtain e w1 e' w2 where f:
    "queryRRset env ns TypeA (resolver env) False w = (Inl e, w1)"
    "queryRRset env ns TypeAAAA (resolver env) False w1 = (Inl e', w2)"
    using assms(2) b(2) unfolding lookupsFail_def by blast
  have a: "getIP env ns TypeA (resolver env) w = ([], w1)"
    using f(1) by (simp add: getIP_def)
  have "getIP env ns TypeAAAA (resolver env) w1 = ([], w2)"
    using f(2) by (simp add: getIP_def)
  then have "NSData_IP d = []" using a b(3) by simp
  then show ?thesis using b(4) by simp
qed

lemma noAddress_lookupsFail: "noAddress env ns \<Longrightarrow> lookupsFail env ns w"
  unfolding noAddress_def lookupsFail_def by metis

section \<open>The code in the example environment\<close>

lemma exampleEnv_wellTyped: "wellTypedEnv exampleEnv"
  unfolding wellTypedEnv_def
  by (auto simp: exampleEnv_def exampleExchange_def exampleAnswer_def exampleHdr_def wellTyped_def
      TypeA_def TypeNS_def TypeAAAA_def TypeOPT_def split: list.splits if_splits sum.splits)

lemma example_NS_lookup:
  "queryRRset exampleEnv ''example.com'' TypeNS (resolver exampleEnv) False 0 =
     (Inr ([NS (exampleHdr ''example.com.'' TypeNS) ''ns1.example.com.'',
            NS (exampleHdr ''example.com.'' TypeNS) ''ns2.example.com.''], 20000000), 1)"
  by code_simp

lemma example_findNS:
  "findNS exampleEnv ''example.com'' 0 =
     Some (Inr [\<lparr>NSData_Name = ''ns1.example.com.'', NSData_IP = [[203, 0, 113, 1]],
                 NSData_Info = [nsinfoOf ''ns1.example.com.'' [203, 0, 113, 1]]\<rparr>,
                \<lparr>NSData_Name = ''ns2.example.com.'', NSData_IP = [], NSData_Info = []\<rparr>], 5)"
  by code_simp

lemma example_refused:
  "queryRRset exampleEnv ''ns2.example.com.'' TypeA (resolver exampleEnv) False w =
     (Inl ''failure: REFUSED'', w + 1)"
  by (simp add: queryRRset_def query_def queryMsg_def prepMsg_def exampleEnv_def exampleExchange_def
      exampleAnswer_def JoinHostPort_def RcodeToString_def
      TypeA_def TypeNS_def TypeAAAA_def Let_def)

lemma example_timeout:
  "queryRRset exampleEnv ''ns2.example.com.'' TypeAAAA (resolver exampleEnv) False w =
     (Inl ''read udp: i/o timeout'', w + 1)"
  by (simp add: queryRRset_def query_def queryMsg_def prepMsg_def exampleEnv_def exampleExchange_def
      exampleAnswer_def JoinHostPort_def RcodeToString_def
      TypeA_def TypeNS_def TypeAAAA_def Let_def)

lemma example_noAddress: "noAddress exampleEnv ''ns2.example.com.''"
  unfolding noAddress_def using example_refused example_timeout by blast

lemma example_NS_lookup_set:
  "queryRRset exampleEnv ''example.com'' TypeNS (resolver exampleEnv) False 0 =
     (Inr (exampleNSset, 20000000), 1)"
  by code_simp

lemma example_loop: "findNS_loop exampleEnv exampleNSset [] 1 = Some (exampleNsdatas, 5)"
  by code_simp

lemma example_findNS_set: "findNS exampleEnv ''example.com'' 0 = Some (Inr exampleNsdatas, 5)"
  by code_simp

lemma example_nxdomain:
  "queryRRset exampleEnv ''example.org'' TypeNS (resolver exampleEnv) False 0 =
     (Inl ''failure: NXDOMAIN'', 1)"
  by code_simp

lemma flakyEnv_wellTyped: "wellTypedEnv flakyEnv"
  unfolding wellTypedEnv_def
  by (auto simp: flakyEnv_def flakyExchange_def exampleEnv_def exampleExchange_def exampleAnswer_def
      exampleHdr_def wellTyped_def TypeA_def TypeNS_def TypeAAAA_def TypeOPT_def
      split: list.splits if_splits sum.splits)

lemma flaky_NS_lookup:
  "queryRRset flakyEnv ''example.com'' TypeNS (resolver flakyEnv) False 0 =
     (Inr (exampleNSset, 20000000), 1)"
  by code_simp

lemma flaky_findNS: "findNS flakyEnv ''example.com'' 0 = Some (Inr exampleNsdatas, 5)"
  by code_simp

lemma flaky_states: "lookupStates flakyEnv exampleNSset 1 = [1, 3]"
  by code_simp

lemma flaky_refused:
  "queryRRset flakyEnv ''ns2.example.com.'' TypeA (resolver flakyEnv) False 3 =
     (Inl ''failure: REFUSED'', 4)"
  by code_simp

lemma flaky_timeout:
  "queryRRset flakyEnv ''ns2.example.com.'' TypeAAAA (resolver flakyEnv) False 4 =
     (Inl ''read udp: i/o timeout'', 5)"
  by code_simp

lemma flaky_later:
  "queryRRset flakyEnv ''ns2.example.com.'' TypeA (resolver flakyEnv) False 5 =
     (Inr ([A (exampleHdr ''ns2.example.com.'' TypeA) [198, 51, 100, 2]], 20000000), 6)"
  by code_simp

lemma flaky_lookupsFail: "lookupsFail flakyEnv ''ns2.example.com.'' 3"
  unfolding lookupsFail_def using flaky_refused flaky_timeout by blast

lemma flaky_not_noAddress: "\<not> noAddress flakyEnv ''ns2.example.com.''"
proof
  assume "noAddress flakyEnv ''ns2.example.com.''"
  then obtain e w' where
    "queryRRset flakyEnv ''ns2.example.com.'' TypeA (resolver flakyEnv) False 5 = (Inl e, w')"
    unfolding noAddress_def by blast
  then show False using flaky_later by simp
qed

section \<open>RRset resolution\<close>

text \<open>
  C3. \<open>queryRRset\<close> never succeeds with an empty record list. Whatever the exchange gives, the
  result is: the error of the exchange; for a reply with a response code other than 0 the
  error \<open>failure:\<close> with the name of the code, which is \<open>REFUSED\<close> for code 5; for a reply
  without a record of the requested type the error \<open>no rr for\<close>; and otherwise the records of
  the requested type, which are not empty, with the round-trip time of the exchange.
\<close>

theorem queryRRset_never_empty_on_success:
  "(\<forall>rrset rtt w'. queryRRset env q qtype server sec w = (Inr (rrset, rtt), w') \<longrightarrow> rrset \<noteq> []) \<and>
   (\<forall>m w1 r w2.
      queryMsg env q qtype sec w = (m, w1) \<longrightarrow>
      Exchange env m (JoinHostPort server ''53'') w1 = (r, w2) \<longrightarrow>
      queryRRset env q qtype server sec w =
        (case r of
           Inl err \<Rightarrow> (Inl err, w2)
         | Inr (in_msg, rtt) \<Rightarrow>
             if Rcode in_msg \<noteq> 0 then (Inl (''failure: '' @ RcodeToString (Rcode in_msg)), w2)
             else if filter (\<lambda>rr. Rrtype (Header rr) = qtype) (Answer in_msg) = []
             then (Inl (''no rr for '' @ fmtSharpV qtype), w2)
             else (Inr (filter (\<lambda>rr. Rrtype (Header rr) = qtype) (Answer in_msg), rtt), w2))) \<and>
   RcodeToString 5 = ''REFUSED''"
  using queryRRset_Inr(1) [of env q qtype server sec w] queryRRset_exchange [of env q qtype sec w]
  by (simp add: RcodeToString_def)

theorem queryRRset_never_empty_on_success_witness:
  "queryRRset exampleEnv ''example.com'' TypeNS (resolver exampleEnv) False 0 =
     (Inr ([NS (exampleHdr ''example.com.'' TypeNS) ''ns1.example.com.'',
            NS (exampleHdr ''example.com.'' TypeNS) ''ns2.example.com.''], 20000000), 1) \<and>
   [NS (exampleHdr ''example.com.'' TypeNS) ''ns1.example.com.'',
    NS (exampleHdr ''example.com.'' TypeNS) ''ns2.example.com.''] \<noteq> [] \<and>
   queryRRset exampleEnv ''ns2.example.com.'' TypeA (resolver exampleEnv) False 3 =
     (Inl ''failure: REFUSED'', 4)"
proof -
  let ?m = "\<lparr>MsgId = 3, RecursionDesired = True, CheckingDisabled = True, Rcode = 0,
             Question = [\<lparr>Q_Name = ''ns2.example.com.'', Qtype = TypeA, Qclass = ClassINET\<rparr>],
             Answer = [], Extra = []\<rparr>"
  have a: "queryRRset exampleEnv ''example.com'' TypeNS (resolver exampleEnv) False 0 =
     (Inr ([NS (exampleHdr ''example.com.'' TypeNS) ''ns1.example.com.'',
            NS (exampleHdr ''example.com.'' TypeNS) ''ns2.example.com.''], 20000000), 1)"
    by (rule example_NS_lookup)
  have b: "[NS (exampleHdr ''example.com.'' TypeNS) ''ns1.example.com.'',
            NS (exampleHdr ''example.com.'' TypeNS) ''ns2.example.com.''] \<noteq> []"
    using queryRRset_never_empty_on_success [of exampleEnv "''example.com''" TypeNS
        "resolver exampleEnv" False 0, THEN conjunct1, rule_format, OF a] .
  have m: "queryMsg exampleEnv ''ns2.example.com.'' TypeA False 3 = (?m, 3)"
    by code_simp
  have x: "Exchange exampleEnv ?m (JoinHostPort (resolver exampleEnv) ''53'') 3 =
             (Inr (?m\<lparr>Rcode := 5\<rparr>, 20000000), 4)"
    by code_simp
  have c: "queryRRset exampleEnv ''ns2.example.com.'' TypeA (resolver exampleEnv) False 3 =
     (Inl ''failure: REFUSED'', 4)"
    using queryRRset_never_empty_on_success [of exampleEnv "''ns2.example.com.''" TypeA
        "resolver exampleEnv" False 3, THEN conjunct2, THEN conjunct1, rule_format, OF m x]
    by (simp add: RcodeToString_def)
  show ?thesis using a b c by blast
qed

section \<open>Discovery: the claims\<close>

text \<open>
  C10. When the NS lookup of \<open>findNS\<close> succeeds, its record set is not empty, and when the loop
  over it ends, it has appended one entry for each record: the list is not empty, the test
  before the last error return is false, and \<open>findNS\<close> returns the list. (When the loop does
  not end, a type assertion has panicked, and \<open>findNS\<close> returns nothing at all.)
\<close>

theorem findNS_no_NS_found_unreachable:
  assumes "queryRRset env domain TypeNS (resolver env) False w = (Inr (rrset, rtt), w1)"
  shows "rrset \<noteq> [] \<and>
         (\<forall>nsdatas w2. findNS_loop env rrset [] w1 = Some (nsdatas, w2) \<longrightarrow>
            length nsdatas = length rrset \<and> length nsdatas \<noteq> 0 \<and>
            findNS env domain w = Some (Inr nsdatas, w2)) \<and>
         (findNS_loop env rrset [] w1 = None \<longrightarrow> findNS env domain w = None)"
  using findNS_after_NS_lookup [OF assms] by blast

theorem findNS_no_NS_found_unreachable_witness:
  "queryRRset exampleEnv ''example.com'' TypeNS (resolver exampleEnv) False 0 =
     (Inr (exampleNSset, 20000000), 1) \<and>
   findNS_loop exampleEnv exampleNSset [] 1 = Some (exampleNsdatas, 5) \<and>
   length exampleNsdatas = length exampleNSset \<and> length exampleNsdatas \<noteq> 0 \<and>
   findNS exampleEnv ''example.com'' 0 = Some (Inr exampleNsdatas, 5)"
  using findNS_no_NS_found_unreachable [OF example_NS_lookup_set, THEN conjunct2, THEN conjunct1,
      rule_format, OF example_loop] example_NS_lookup_set example_loop
  by blast

text \<open>
  C4. With well-typed replies, \<open>findNS\<close> returns an error exactly when its NS lookup does, and
  that error. When the NS lookup succeeds, \<open>findNS\<close> returns one entry for each record of the
  NS record set, named after the record's target and built from the lookups made for that
  record in the run; the entry of a record whose own lookups of type A and AAAA both fail has
  an empty address list and an empty information list, whatever the resolver answers at
  another time; and so has, in particular, the entry of a name that resolves to no address in
  any state.
\<close>

theorem findNS_fails_only_on_NS_lookup:
  assumes "wellTypedEnv env"
  shows "(\<forall>e w1. queryRRset env domain TypeNS (resolver env) False w = (Inl e, w1) \<longrightarrow>
            findNS env domain w = Some (Inl e, w1)) \<and>
         (\<forall>rrset rtt w1. queryRRset env domain TypeNS (resolver env) False w = (Inr (rrset, rtt), w1) \<longrightarrow>
            (\<exists>nsdatas w2. findNS env domain w = Some (Inr nsdatas, w2) \<and>
               list_all2 (\<lambda>rr d. \<exists>h. rr = NS h (NSData_Name d)) rrset nsdatas \<and>
               (\<forall>i < length rrset.
                  builtAt env (rrset ! i) (lookupStates env rrset w1 ! i) (nsdatas ! i) \<and>
                  (lookupsFail env (NSData_Name (nsdatas ! i)) (lookupStates env rrset w1 ! i) \<longrightarrow>
                     NSData_IP (nsdatas ! i) = [] \<and> NSData_Info (nsdatas ! i) = [])) \<and>
               (\<forall>d \<in> set nsdatas. noAddress env (NSData_Name d) \<longrightarrow>
                  NSData_IP d = [] \<and> NSData_Info d = [])))"
proof -
  have "\<exists>nsdatas w2. findNS env domain w = Some (Inr nsdatas, w2) \<and>
               list_all2 (\<lambda>rr d. \<exists>h. rr = NS h (NSData_Name d)) rrset nsdatas \<and>
               (\<forall>i < length rrset.
                  builtAt env (rrset ! i) (lookupStates env rrset w1 ! i) (nsdatas ! i) \<and>
                  (lookupsFail env (NSData_Name (nsdatas ! i)) (lookupStates env rrset w1 ! i) \<longrightarrow>
                     NSData_IP (nsdatas ! i) = [] \<and> NSData_Info (nsdatas ! i) = [])) \<and>
               (\<forall>d \<in> set nsdatas. noAddress env (NSData_Name d) \<longrightarrow>
                  NSData_IP d = [] \<and> NSData_Info d = [])"
    if q: "queryRRset env domain TypeNS (resolver env) False w = (Inr (rrset, rtt), w1)"
    for rrset rtt w1
  proof -
    have "findNS_loop env rrset [] w1 \<noteq> None"
      using findNS_loop_total [OF NS_lookup_all_NS [OF assms q]] .
    then obtain nsdatas w2 where l: "findNS_loop env rrset [] w1 = Some (nsdatas, w2)"
      by auto
    have f: "findNS env domain w = Some (Inr nsdatas, w2)"
      and len: "length nsdatas = length rrset"
      using findNS_after_NS_lookup(2) [OF q l] by blast+
    have d: "list_all2 (discovered env) rrset nsdatas"
      using findNS_loop_discovered [OF l] by simp
    have names: "list_all2 (\<lambda>rr d. \<exists>h. rr = NS h (NSData_Name d)) rrset nsdatas"
      by (rule list_all2_mono [OF d]) (simp add: discovered_def)
    have run: "builtAt env (rrset ! i) (lookupStates env rrset w1 ! i) (nsdatas ! i) \<and>
               (lookupsFail env (NSData_Name (nsdatas ! i)) (lookupStates env rrset w1 ! i) \<longrightarrow>
                  NSData_IP (nsdatas ! i) = [] \<and> NSData_Info (nsdatas ! i) = [])"
      if i: "i < length rrset" for i
      using findNS_loop_run_nth [OF l i] lookupsFail_empty [OF findNS_loop_run_nth [OF l i]]
      by blast
    have none: "NSData_IP x = [] \<and> NSData_Info x = []"
      if mem: "x \<in> set nsdatas" and na: "noAddress env (NSData_Name x)" for x
    proof -
      from mem obtain i where i: "i < length nsdatas" "nsdatas ! i = x"
        unfolding in_set_conv_nth by blast
      have "lookupsFail env (NSData_Name x) (lookupStates env rrset w1 ! i)"
        using na by (rule noAddress_lookupsFail)
      then show ?thesis using run [of i] i len by simp
    qed
    show ?thesis using f names run none by blast
  qed
  moreover have "findNS env domain w = Some (Inl e, w1)"
    if "queryRRset env domain TypeNS (resolver env) False w = (Inl e, w1)" for e w1
    using that by (simp add: findNS_def)
  ultimately show ?thesis by blast
qed

theorem findNS_fails_only_on_NS_lookup_witness:
  "wellTypedEnv flakyEnv \<and>
   queryRRset flakyEnv ''example.com'' TypeNS (resolver flakyEnv) False 0 =
     (Inr (exampleNSset, 20000000), 1) \<and>
   findNS flakyEnv ''example.com'' 0 = Some (Inr exampleNsdatas, 5) \<and>
   lookupStates flakyEnv exampleNSset 1 = [1, 3] \<and>
   NSData_Name (exampleNsdatas ! 1) = ''ns2.example.com.'' \<and>
   lookupsFail flakyEnv ''ns2.example.com.'' 3 \<and>
   \<not> noAddress flakyEnv ''ns2.example.com.'' \<and>
   NSData_IP (exampleNsdatas ! 1) = [] \<and> NSData_Info (exampleNsdatas ! 1) = [] \<and>
   builtAt flakyEnv (exampleNSset ! 0) 1 (exampleNsdatas ! 0) \<and>
   wellTypedEnv exampleEnv \<and>
   findNS exampleEnv ''example.com'' 0 = Some (Inr exampleNsdatas, 5) \<and>
   noAddress exampleEnv ''ns2.example.com.'' \<and>
   queryRRset exampleEnv ''example.org'' TypeNS (resolver exampleEnv) False 0 =
     (Inl ''failure: NXDOMAIN'', 1) \<and>
   findNS exampleEnv ''example.org'' 0 = Some (Inl ''failure: NXDOMAIN'', 1)"
proof -
  note t = findNS_fails_only_on_NS_lookup [OF flakyEnv_wellTyped]
  note t' = findNS_fails_only_on_NS_lookup [OF exampleEnv_wellTyped]
  obtain nsdatas w2 where
    f: "findNS flakyEnv ''example.com'' 0 = Some (Inr nsdatas, w2)" and
    r: "\<forall>i < length exampleNSset.
          builtAt flakyEnv (exampleNSset ! i) (lookupStates flakyEnv exampleNSset 1 ! i) (nsdatas ! i) \<and>
          (lookupsFail flakyEnv (NSData_Name (nsdatas ! i)) (lookupStates flakyEnv exampleNSset 1 ! i) \<longrightarrow>
             NSData_IP (nsdatas ! i) = [] \<and> NSData_Info (nsdatas ! i) = [])"
    using t [of "''example.com''" 0, THEN conjunct2, rule_format, OF flaky_NS_lookup] by blast
  have eq: "nsdatas = exampleNsdatas" using f flaky_findNS by simp
  have name: "NSData_Name (exampleNsdatas ! 1) = ''ns2.example.com.''"
    by (simp add: exampleNsdatas_def)
  have i0: "0 < length exampleNSset" and i1: "1 < length exampleNSset"
    by (simp_all add: exampleNSset_def)
  have st: "lookupStates flakyEnv exampleNSset 1 ! 1 = 3"
    "lookupStates flakyEnv exampleNSset 1 ! 0 = 1"
    unfolding flaky_states by simp_all
  note r1 = r [unfolded eq, rule_format, OF i1, unfolded st name]
  note r0 = r [unfolded eq, rule_format, OF i0, unfolded st]
  have none: "NSData_IP (exampleNsdatas ! 1) = [] \<and> NSData_Info (exampleNsdatas ! 1) = []"
    using r1 flaky_lookupsFail by blast
  have built: "builtAt flakyEnv (exampleNSset ! 0) 1 (exampleNsdatas ! 0)"
    using r0 by blast
  have nx: "findNS exampleEnv ''example.org'' 0 = Some (Inl ''failure: NXDOMAIN'', 1)"
    using t' [of "''example.org''" 0, THEN conjunct1, rule_format, OF example_nxdomain] .
  show ?thesis
    using flakyEnv_wellTyped flaky_NS_lookup flaky_findNS flaky_states name flaky_lookupsFail
      flaky_not_noAddress none built exampleEnv_wellTyped example_findNS_set example_noAddress
      example_nxdomain nx
    by blast
qed

text \<open>
  C5. With well-typed replies, a successful \<open>findNS\<close> returns exactly one entry for each record
  of the NS record set, in the order of the records, each named after its record's target; and
  the address list of every entry is the addresses of A records that a lookup of type A for
  that name returned, followed by the addresses of AAAA records that a lookup of type AAAA for
  it returned.
\<close>

theorem findNS_one_entry_per_NS_record:
  assumes "wellTypedEnv env"
    and "queryRRset env domain TypeNS (resolver env) False w = (Inr (rrset, rtt), w1)"
    and "findNS env domain w = Some (Inr nsdatas, w2)"
  shows "length nsdatas = length rrset \<and>
         list_all2 (\<lambda>rr d. \<exists>h. rr = NS h (NSData_Name d)) rrset nsdatas \<and>
         (\<forall>d \<in> set nsdatas. \<exists>rsA rsAAAA.
            list_all isA rsA \<and> list_all isAAAA rsAAAA \<and>
            lookedUp env (NSData_Name d) TypeA rsA \<and> lookedUp env (NSData_Name d) TypeAAAA rsAAAA \<and>
            NSData_IP d = map addrOf rsA @ map addrOf rsAAAA)"
proof -
  have l: "findNS_loop env rrset [] w1 = Some (nsdatas, w2)"
    using findNS_Inr_loop [OF assms(2,3)] .
  have d: "list_all2 (discovered env) rrset nsdatas"
    using findNS_loop_discovered [OF l] by simp
  have one: "list_all2 (\<lambda>rr d. \<exists>h. rr = NS h (NSData_Name d)) rrset nsdatas"
    by (rule list_all2_mono [OF d]) (simp add: discovered_def)
  have len: "length nsdatas = length rrset"
    using d by (simp add: list_all2_lengthD)
  have "\<exists>rsA rsAAAA.
            list_all isA rsA \<and> list_all isAAAA rsAAAA \<and>
            lookedUp env (NSData_Name x) TypeA rsA \<and> lookedUp env (NSData_Name x) TypeAAAA rsAAAA \<and>
            NSData_IP x = map addrOf rsA @ map addrOf rsAAAA"
    if mem: "x \<in> set nsdatas" for x
  proof -
    from mem obtain i where i: "i < length nsdatas" "nsdatas ! i = x"
      unfolding in_set_conv_nth by blast
    have "discovered env (rrset ! i) x"
      using list_all2_nthD2 [OF d i(1)] i(2) by simp
    then obtain rsA rsAAAA where r:
      "lookedUp env (NSData_Name x) TypeA rsA" "lookedUp env (NSData_Name x) TypeAAAA rsAAAA"
      "NSData_IP x = extractIP rsA @ extractIP rsAAAA"
      unfolding discovered_def by blast
    have a: "list_all isA rsA" using lookedUp_A [OF assms(1) r(1)] .
    have b: "list_all isAAAA rsAAAA" using lookedUp_AAAA [OF assms(1) r(2)] .
    have "NSData_IP x = map addrOf rsA @ map addrOf rsAAAA"
      using r(3) extractIP_A [OF a] extractIP_AAAA [OF b] by simp
    then show ?thesis using a b r(1,2) by blast
  qed
  then show ?thesis using one len by blast
qed

theorem findNS_one_entry_per_NS_record_witness:
  "wellTypedEnv exampleEnv \<and>
   queryRRset exampleEnv ''example.com'' TypeNS (resolver exampleEnv) False 0 =
     (Inr (exampleNSset, 20000000), 1) \<and>
   findNS exampleEnv ''example.com'' 0 = Some (Inr exampleNsdatas, 5) \<and>
   length exampleNsdatas = length exampleNSset \<and>
   list_all2 (\<lambda>rr d. \<exists>h. rr = NS h (NSData_Name d)) exampleNSset exampleNsdatas \<and>
   (\<exists>rsA rsAAAA.
      list_all isA rsA \<and> list_all isAAAA rsAAAA \<and>
      lookedUp exampleEnv ''ns1.example.com.'' TypeA rsA \<and>
      lookedUp exampleEnv ''ns1.example.com.'' TypeAAAA rsAAAA \<and>
      [[203, 0, 113, 1]] = map addrOf rsA @ map addrOf rsAAAA)"
proof -
  note t = findNS_one_entry_per_NS_record
             [OF exampleEnv_wellTyped example_NS_lookup_set example_findNS_set]
  have mem: "exampleNsdatas ! 0 \<in> set exampleNsdatas"
    by (simp add: exampleNsdatas_def)
  have "\<exists>rsA rsAAAA.
      list_all isA rsA \<and> list_all isAAAA rsAAAA \<and>
      lookedUp exampleEnv (NSData_Name (exampleNsdatas ! 0)) TypeA rsA \<and>
      lookedUp exampleEnv (NSData_Name (exampleNsdatas ! 0)) TypeAAAA rsAAAA \<and>
      NSData_IP (exampleNsdatas ! 0) = map addrOf rsA @ map addrOf rsAAAA"
    using t [THEN conjunct2, THEN conjunct2, rule_format, OF mem] .
  then have "\<exists>rsA rsAAAA.
      list_all isA rsA \<and> list_all isAAAA rsAAAA \<and>
      lookedUp exampleEnv ''ns1.example.com.'' TypeA rsA \<and>
      lookedUp exampleEnv ''ns1.example.com.'' TypeAAAA rsAAAA \<and>
      [[203, 0, 113, 1]] = map addrOf rsA @ map addrOf rsAAAA"
    by (simp add: exampleNsdatas_def)
  then show ?thesis
    using t exampleEnv_wellTyped example_NS_lookup_set example_findNS_set by blast
qed

end
